theory Spec2Isabelle
  imports Main
begin

section \<open>The line tokenizer of shell.c\<close>

text \<open>
  The input buffer is the C array \<open>char input[BUFFER_SIZE]\<close>, modelled as a list of
  bytes; an index is the C \<open>int\<close> that \<open>*ind\<close> holds (it never leaves
  \<open>0 .. BUFFER_SIZE + 1\<close>, so it is a \<open>nat\<close>).
\<close>

definition BUFFER_SIZE :: nat where "BUFFER_SIZE = 2048"
definition MAX_PROCESSES :: nat where "MAX_PROCESSES = 1000"
definition MAX_WORDS :: nat where "MAX_WORDS = 500"
definition MAX_WORD_LENGTH :: nat where "MAX_WORD_LENGTH = 100"
definition SIZE_OF_PIPE :: nat where "SIZE_OF_PIPE = 2"

definition NL :: char where "NL = CHR 0x0A"
definition SP :: char where "SP = CHR 0x20"
definition BAR :: char where "BAR = CHR 0x7C"
definition NUL :: char where "NUL = CHR 0x00"

text \<open>
  \<open>input[*ind] == EOF\<close> compares a \<open>char\<close> with the \<open>int\<close> \<open>-1\<close>. Where
  \<open>char\<close> is signed (gcc on x86) the byte \<open>0xFF\<close> is the one that compares equal.
\<close>

definition EOF_byte :: char where "EOF_byte = CHR 0xFF"

text \<open>
  The arrays that the tokenizer fills have a fixed capacity and no bound is checked
  before a store. A store past the capacity is a fault of the C program; the model
  returns it as a value.
\<close>

datatype fault =
    ArgOverflow       \<comment> \<open>store past \<open>arg[MAX_WORD_LENGTH - 1]\<close> in makeArgument\<close>
  | ArgsOverflow      \<comment> \<open>store past \<open>args[MAX_WORDS - 1]\<close> in makeProcess\<close>
  | ProcsOverflow     \<comment> \<open>store past \<open>currProcesses->args[MAX_PROCESSES - 1]\<close>\<close>
  | NullProgram       \<comment> \<open>\<open>args[0][0]\<close> read where \<open>args[0][0]\<close> is NULL\<close>
  | NoStatus          \<comment> \<open>\<open>WEXITSTATUS(status)\<close> read with \<open>status\<close> never written\<close>

definition endOfArg :: "string \<Rightarrow> nat \<Rightarrow> bool" where
  "endOfArg input ind \<longleftrightarrow>
     BUFFER_SIZE \<le> ind \<or> input ! ind = NL \<or> input ! ind = EOF_byte \<or> input ! ind = BAR"

function makeArgument_loop :: "string \<Rightarrow> nat \<Rightarrow> string \<Rightarrow> fault + (string \<times> nat)" where
  "makeArgument_loop input ind arg =
     (if \<not> endOfArg input ind \<and> input ! ind \<noteq> SP then
        (if MAX_WORD_LENGTH \<le> length arg then Inl ArgOverflow
         else makeArgument_loop input (Suc ind) (arg @ [input ! ind]))
      else if MAX_WORD_LENGTH \<le> length arg then Inl ArgOverflow
      else Inr (arg, ind))"
  by pat_completeness auto
termination
  by (relation "measure (\<lambda>(input, ind, arg). BUFFER_SIZE - ind)")
     (auto simp: endOfArg_def)

declare makeArgument_loop.simps [simp del]

text \<open>
  The result is the bytes stored before the terminating NUL (C reads the argument as
  the string up to its first NUL byte, see \<open>c_str\<close>) and the new value of \<open>*ind\<close>.
\<close>

definition makeArgument :: "string \<Rightarrow> nat \<Rightarrow> fault + (string \<times> nat)" where
  "makeArgument input ind = makeArgument_loop input ind []"

text \<open>The inner loop of makeProcess, "skip leading white space".\<close>

function skipSpaces :: "string \<Rightarrow> nat \<Rightarrow> nat" where
  "skipSpaces input ind =
     (if \<not> endOfArg input ind \<and> input ! ind = SP then skipSpaces input (Suc ind) else ind)"
  by pat_completeness auto
termination
  by (relation "measure (\<lambda>(input, ind). BUFFER_SIZE - ind)")
     (auto simp: endOfArg_def)

declare skipSpaces.simps [simp del]

lemma skipSpaces_ge: "ind \<le> skipSpaces input ind"
proof (induction input ind rule: skipSpaces.induct)
  case (1 input ind)
  show ?case
  proof (cases "\<not> endOfArg input ind \<and> input ! ind = SP")
    case True
    with "1" have "Suc ind \<le> skipSpaces input (Suc ind)" by simp
    with True show ?thesis by (subst skipSpaces.simps) simp
  next
    case False
    then show ?thesis by (subst skipSpaces.simps) auto
  qed
qed

lemma skipSpaces_stop:
  "endOfArg input (skipSpaces input ind) \<or> input ! (skipSpaces input ind) \<noteq> SP"
proof (induction input ind rule: skipSpaces.induct)
  case (1 input ind)
  show ?case
  proof (cases "\<not> endOfArg input ind \<and> input ! ind = SP")
    case True
    with "1" show ?thesis by (subst (1 2) skipSpaces.simps) simp
  next
    case False
    then show ?thesis by (subst (1 2) skipSpaces.simps) auto
  qed
qed

lemma makeArgument_loop_ge:
  "makeArgument_loop input ind arg = Inr (a, j) \<Longrightarrow> ind \<le> j"
proof (induction input ind arg rule: makeArgument_loop.induct)
  case (1 input ind arg)
  show ?case
  proof (cases "\<not> endOfArg input ind \<and> input ! ind \<noteq> SP")
    case True
    with "1.prems" have ok: "\<not> MAX_WORD_LENGTH \<le> length arg"
      by (subst (asm) makeArgument_loop.simps) (auto split: if_splits)
    with True "1.prems"
    have "makeArgument_loop input (Suc ind) (arg @ [input ! ind]) = Inr (a, j)"
      by (subst (asm) makeArgument_loop.simps) simp
    with "1.IH" True ok have "Suc ind \<le> j" by simp
    then show ?thesis by simp
  next
    case False
    with "1.prems" show ?thesis
      by (subst (asm) makeArgument_loop.simps) (auto split: if_splits)
  qed
qed

lemma makeArgument_advances:
  assumes "makeArgument input ind = Inr (a, j)"
    and "\<not> endOfArg input ind" and "input ! ind \<noteq> SP"
  shows "ind < j"
proof -
  from assms have "makeArgument_loop input (Suc ind) ([] @ [input ! ind]) = Inr (a, j)"
    unfolding makeArgument_def
    by (subst (asm) makeArgument_loop.simps) (simp split: if_splits)
  then have "Suc ind \<le> j" by (rule makeArgument_loop_ge)
  then show ?thesis by simp
qed

function makeProcess_loop ::
  "string \<Rightarrow> nat \<Rightarrow> string list \<Rightarrow> fault + (string list \<times> nat)" where
  "makeProcess_loop input ind args =
     (if \<not> endOfArg input ind then
        (let ind1 = skipSpaces input ind in
         if \<not> endOfArg input ind1 then
           (case makeArgument input ind1 of
              Inl e \<Rightarrow> Inl e
            | Inr (arg, ind2) \<Rightarrow>
                if MAX_WORDS \<le> length args then Inl ArgsOverflow
                else makeProcess_loop input ind2 (args @ [arg]))
         else makeProcess_loop input ind1 args)
      else if MAX_WORDS \<le> length args then Inl ArgsOverflow
      else Inr (args, ind))"
  by pat_completeness auto
termination
proof (relation "measure (\<lambda>(input, ind, args). BUFFER_SIZE - ind)", goal_cases)
  case 1
  show ?case by simp
next
  case (2 input ind args ind1 r arg ind2)
  from 2 have "input ! ind1 \<noteq> SP" using skipSpaces_stop [of input ind] by simp
  with 2 have "ind1 < ind2" using makeArgument_advances [of input ind1 arg ind2] by simp
  moreover from 2 have "ind \<le> ind1" using skipSpaces_ge [of ind input] by simp
  moreover from 2 have "ind < BUFFER_SIZE" by (simp add: endOfArg_def)
  ultimately show ?case by simp
next
  case (3 input ind args ind1)
  then have "ind \<noteq> ind1" by auto
  moreover from 3 have "ind \<le> ind1" using skipSpaces_ge [of ind input] by simp
  moreover from 3 have "ind < BUFFER_SIZE" by (simp add: endOfArg_def)
  ultimately show ?case by simp
qed

declare makeProcess_loop.simps [simp del]

definition makeProcess :: "string \<Rightarrow> nat \<Rightarrow> fault + (string list \<times> nat)" where
  "makeProcess input ind =
     (case makeProcess_loop input ind [] of
        Inl e \<Rightarrow> Inl e
      | Inr (args, ind') \<Rightarrow>
          Inr (args, if ind' < BUFFER_SIZE \<and> input ! ind' = BAR then Suc ind' else ind'))"


lemma makeProcess_loop_ge:
  "makeProcess_loop input ind args = Inr (args', ind') \<Longrightarrow> ind \<le> ind'"
proof (induction input ind args rule: makeProcess_loop.induct)
  case (1 input ind args)
  let ?i1 = "skipSpaces input ind"
  have le1: "ind \<le> ?i1" by (rule skipSpaces_ge)
  show ?case
  proof (cases "endOfArg input ind")
    case True
    with "1.prems" show ?thesis
      by (subst (asm) makeProcess_loop.simps) (auto split: if_splits)
  next
    case False
    show ?thesis
    proof (cases "endOfArg input ?i1")
      case True
      with False "1.prems" have "makeProcess_loop input ?i1 args = Inr (args', ind')"
        by (subst (asm) makeProcess_loop.simps) (simp add: Let_def)
      with "1.IH"(2) [OF False refl] True have "?i1 \<le> ind'" by simp
      with le1 show ?thesis by simp
    next
      case e1: False
      from False e1 "1.prems" obtain arg ind2 where
        ma: "makeArgument input ?i1 = Inr (arg, ind2)" and
        ok: "\<not> MAX_WORDS \<le> length args" and
        rec: "makeProcess_loop input ind2 (args @ [arg]) = Inr (args', ind')"
        by (subst (asm) makeProcess_loop.simps)
           (auto simp: Let_def split: sum.splits if_splits)
      from "1.IH"(1) [OF False refl e1 ma refl ok rec] have "ind2 \<le> ind'" .
      moreover have "?i1 < ind2"
        using makeArgument_advances [OF ma e1] skipSpaces_stop [of input ind] e1 by simp
      ultimately show ?thesis using le1 by simp
    qed
  qed
qed

lemma makeProcess_loop_at_end:
  "endOfArg input ind \<Longrightarrow>
   makeProcess_loop input ind args =
     (if MAX_WORDS \<le> length args then Inl ArgsOverflow else Inr (args, ind))"
  by (subst makeProcess_loop.simps) simp

lemma makeProcess_loop_advances:
  assumes "makeProcess_loop input ind args = Inr (args', ind')"
    and "\<not> endOfArg input ind"
  shows "ind < ind'"
proof -
  let ?i1 = "skipSpaces input ind"
  have le1: "ind \<le> ?i1" by (rule skipSpaces_ge)
  show ?thesis
  proof (cases "endOfArg input ?i1")
    case True
    with assms have "makeProcess_loop input ?i1 args = Inr (args', ind')"
      by (subst (asm) makeProcess_loop.simps) (simp add: Let_def)
    then have "?i1 \<le> ind'" by (rule makeProcess_loop_ge)
    moreover from True assms(2) have "ind \<noteq> ?i1" by auto
    ultimately show ?thesis using le1 by simp
  next
    case False
    with assms obtain arg ind2 where
      ma: "makeArgument input ?i1 = Inr (arg, ind2)" and
      rec: "makeProcess_loop input ind2 (args @ [arg]) = Inr (args', ind')"
      by (subst (asm) makeProcess_loop.simps)
         (auto simp: Let_def split: sum.splits if_splits)
    from rec have "ind2 \<le> ind'" by (rule makeProcess_loop_ge)
    moreover have "?i1 < ind2"
      using makeArgument_advances [OF ma False] skipSpaces_stop [of input ind] False by simp
    ultimately show ?thesis using le1 by simp
  qed
qed

lemma makeProcess_nonempty_advances:
  assumes "makeProcess input ind = Inr (args, ind')" and "args \<noteq> []"
  shows "ind < ind' \<and> ind < BUFFER_SIZE"
proof -
  from assms(1) obtain j where
    lp: "makeProcess_loop input ind [] = Inr (args, j)" and j: "j \<le> ind'"
    by (auto simp: makeProcess_def split: sum.splits if_splits)
  have ne: "\<not> endOfArg input ind"
  proof
    assume "endOfArg input ind"
    with lp assms(2) show False
      by (simp add: makeProcess_loop_at_end split: if_splits)
  qed
  with lp have "ind < j" by (rule makeProcess_loop_advances)
  with j ne show ?thesis by (simp add: endOfArg_def)
qed

text \<open>
  makeProcesses: the first call of makeProcess, then the loop
  \<open>while (currArgs[0] != NULL)\<close>. \<open>args[0]\<close> is NULL exactly when the stage has
  no argument.
\<close>

function makeProcesses_loop ::
  "string \<Rightarrow> nat \<Rightarrow> string list list \<Rightarrow> fault + string list list" where
  "makeProcesses_loop input ind procs =
     (case makeProcess input ind of
        Inl e \<Rightarrow> Inl e
      | Inr (currArgs, ind') \<Rightarrow>
          if currArgs \<noteq> [] then
            (if MAX_PROCESSES \<le> length procs then Inl ProcsOverflow
             else makeProcesses_loop input ind' (procs @ [currArgs]))
          else Inr procs)"
  by pat_completeness auto
termination
proof (relation "measure (\<lambda>(input, ind, procs). BUFFER_SIZE - ind)", goal_cases)
  case 1
  show ?case by simp
next
  case (2 input ind procs r currArgs ind')
  then have "ind < ind' \<and> ind < BUFFER_SIZE"
    using makeProcess_nonempty_advances [of input ind currArgs ind'] by simp
  then show ?case by auto
qed

declare makeProcesses_loop.simps [simp del]

definition makeProcesses :: "string \<Rightarrow> fault + string list list" where
  "makeProcesses input = makeProcesses_loop input 0 []"

text \<open>
  A buffer holding the bytes \<open>s\<close> that fgets stored, its NUL terminator, and NUL
  bytes up to the capacity.
\<close>

definition buffer_of :: "string \<Rightarrow> string" where
  "buffer_of s = s @ replicate (BUFFER_SIZE - length s) NUL"


text \<open>
  The positions at which makeArgument stops reading an argument, written out: past the
  buffer, or on a space, a newline, a pipe symbol or the byte equal to \<open>EOF\<close>.
\<close>

definition argBoundary :: "string \<Rightarrow> nat \<Rightarrow> bool" where
  "argBoundary input k \<longleftrightarrow>
     BUFFER_SIZE \<le> k \<or> input ! k = SP \<or> input ! k = NL \<or> input ! k = BAR \<or>
     input ! k = EOF_byte"

text \<open>
  C reads an argument as a string: the bytes before the first NUL. (A NUL byte of the
  buffer is no boundary for the tokenizer, so an argument can hold one.)
\<close>

definition c_str :: "string \<Rightarrow> string" where
  "c_str bytes = takeWhile (\<lambda>c. c \<noteq> NUL) bytes"

section \<open>The operating system as the executor uses it\<close>

datatype chan_end = ReadEnd | WriteEnd

text \<open>
  What a descriptor refers to: the terminal, one end of the k-th pipe created, or a
  regular file.
\<close>

datatype endpoint = Terminal | PipeEnd nat chan_end | RegularFile

type_synonym fd = nat

text \<open>The process that makes a call: the shell, or the child forked for stage i.\<close>

datatype who = Shell | Child nat

datatype printed = Prompt | Status int

record pstate =
  fds :: "fd \<rightharpoonup> endpoint"          \<comment> \<open>the descriptor table of the process\<close>
  pipes_made :: nat                      \<comment> \<open>how many pipes the process has created\<close>
  err :: "string list"                   \<comment> \<open>what it wrote to standard error\<close>
  out :: "printed list"                   \<comment> \<open>what it wrote to standard output\<close>

text \<open>
  Everything the calls of the shell depend on and the shell does not control.
\<close>

record world =
  fd_limit :: nat                            \<comment> \<open>descriptors are below it (EMFILE)\<close>
  first_pid :: nat                           \<comment> \<open>the child of stage i gets the pid after it, plus i\<close>
  fork_fails :: "nat \<Rightarrow> bool"               \<comment> \<open>fork() for stage i returns -1\<close>
  close_fails :: "who \<Rightarrow> fd \<Rightarrow> bool"        \<comment> \<open>close of an open descriptor returns -1\<close>
  dup2_fails :: "who \<Rightarrow> fd \<Rightarrow> fd \<Rightarrow> bool"   \<comment> \<open>dup2 of an open descriptor returns -1\<close>
  wait_fails :: "int \<Rightarrow> bool"                \<comment> \<open>waitpid(pid) returns -1\<close>
  exec_fails :: "nat \<Rightarrow> bool"               \<comment> \<open>execvp in the child of stage i returns\<close>
  program_status :: "nat \<Rightarrow> int"            \<comment> \<open>wait status of stage i's program\<close>
  finish_order :: "nat list"                 \<comment> \<open>stages, in the order their processes end\<close>

datatype 'a result =
    Return 'a pstate              \<comment> \<open>the function returns\<close>
  | Exit int pstate               \<comment> \<open>the process ends by \<open>exit(status)\<close> or returns from main\<close>
  | Exec "string list" pstate     \<comment> \<open>execvp replaced the process image\<close>
  | Blocked pstate                \<comment> \<open>waitpid never returns\<close>
  | Fault fault

fun bind :: "'a result \<Rightarrow> ('a \<Rightarrow> pstate \<Rightarrow> 'b result) \<Rightarrow> 'b result" where
  "bind (Return x st) f = f x st"
| "bind (Exit c st) f = Exit c st"
| "bind (Exec a st) f = Exec a st"
| "bind (Blocked st) f = Blocked st"
| "bind (Fault e) f = Fault e"

definition EXIT_FAILURE :: int where "EXIT_FAILURE = 1"
definition STDIN_FILENO :: fd where "STDIN_FILENO = 0"
definition STDOUT_FILENO :: fd where "STDOUT_FILENO = 1"

definition eprint :: "string \<Rightarrow> pstate \<Rightarrow> pstate" where
  "eprint msg st = st\<lparr>err := err st @ [msg]\<rparr>"

definition print :: "printed \<Rightarrow> pstate \<Rightarrow> pstate" where
  "print x st = st\<lparr>out := out st @ [x]\<rparr>"

text \<open>pipe(2), close(2), dup2(2), fork(2): \<open>None\<close> is the return value -1.\<close>

definition lowest_free :: "world \<Rightarrow> (fd \<rightharpoonup> endpoint) \<Rightarrow> fd option" where
  "lowest_free w t = find (\<lambda>n. t n = None) [0..<fd_limit w]"

definition sys_pipe :: "world \<Rightarrow> pstate \<Rightarrow> ((fd \<times> fd) \<times> pstate) option" where
  "sys_pipe w st =
     (case lowest_free w (fds st) of
        None \<Rightarrow> None
      | Some r \<Rightarrow>
          (case lowest_free w ((fds st)(r \<mapsto> PipeEnd (pipes_made st) ReadEnd)) of
             None \<Rightarrow> None
           | Some wr \<Rightarrow>
               Some ((r, wr),
                     st\<lparr>fds := (fds st)(r \<mapsto> PipeEnd (pipes_made st) ReadEnd,
                                          wr \<mapsto> PipeEnd (pipes_made st) WriteEnd),
                        pipes_made := Suc (pipes_made st)\<rparr>)))"

definition sys_close :: "world \<Rightarrow> who \<Rightarrow> fd \<Rightarrow> pstate \<Rightarrow> pstate option" where
  "sys_close w me d st =
     (if fds st d = None \<or> close_fails w me d then None
      else Some (st\<lparr>fds := (fds st)(d := None)\<rparr>))"

definition sys_dup2 :: "world \<Rightarrow> who \<Rightarrow> fd \<Rightarrow> fd \<Rightarrow> pstate \<Rightarrow> pstate option" where
  "sys_dup2 w me old new st =
     (if fds st old = None \<or> dup2_fails w me old new then None
      else Some (st\<lparr>fds := (fds st)(new := fds st old)\<rparr>))"

definition child_pid :: "world \<Rightarrow> nat \<Rightarrow> int" where
  "child_pid w i = int (first_pid w) + int i + 1"

definition sys_fork :: "world \<Rightarrow> nat \<Rightarrow> int option" where
  "sys_fork w i = (if fork_fails w i then None else Some (child_pid w i))"

text \<open>
  waitpid(pid, &status, 0) looks the child up among the ended children, in whatever
  order they ended; a child that never ends keeps the caller waiting.
\<close>

datatype waited = WaitError | WaitForever | WaitStatus int

definition sys_waitpid :: "world \<Rightarrow> (int \<times> int) list \<Rightarrow> int \<Rightarrow> waited" where
  "sys_waitpid w ended pid =
     (if wait_fails w pid then WaitError
      else case map_of ended pid of None \<Rightarrow> WaitForever | Some s \<Rightarrow> WaitStatus s)"

definition WEXITSTATUS :: "int \<Rightarrow> int" where
  "WEXITSTATUS s = (s div 256) mod 256"

definition W_EXITCODE :: "int \<Rightarrow> int" where
  "W_EXITCODE c = (c mod 256) * 256"

section \<open>The pipeline executor of shell.c\<close>

text \<open>
  The parameter \<open>size\<close> of the C functions is \<open>sz\<close> here. freePipesAndPids and
  freeProcesses only release memory and have no counterpart.
\<close>

function makePipes_loop ::
  "world \<Rightarrow> nat \<Rightarrow> nat \<Rightarrow> (fd \<times> fd) list \<Rightarrow> pstate \<Rightarrow> (fd \<times> fd) list result" where
  "makePipes_loop w sz i pipes st =
     (if i < sz then
        (case sys_pipe w st of
           None \<Rightarrow> Exit EXIT_FAILURE (eprint ''Pipe Error'' st)
         | Some (p, st') \<Rightarrow> makePipes_loop w sz (Suc i) (pipes @ [p]) st')
      else Return pipes st)"
  by pat_completeness auto
termination
  by (relation "measure (\<lambda>(w, sz, i, pipes, st). sz - i)") auto

declare makePipes_loop.simps [simp del]

definition makePipes :: "world \<Rightarrow> nat \<Rightarrow> pstate \<Rightarrow> (fd \<times> fd) list result" where
  "makePipes w sz st = makePipes_loop w sz 0 [] st"

text \<open>
  \<open>pipes[i][0]\<close> is \<open>fst (pipes ! i)\<close>, \<open>pipes[i][1]\<close> is \<open>snd (pipes ! i)\<close>. The loop
  bound \<open>size - 1\<close> and the test \<open>i != ind - 1\<close> are C \<open>int\<close> arithmetic. In
  \<open>c1 && close(..) == -1\<close> the call is made only where \<open>c1\<close> holds.
\<close>

function closeUnneededPipes_loop ::
  "world \<Rightarrow> who \<Rightarrow> (fd \<times> fd) list \<Rightarrow> nat \<Rightarrow> nat \<Rightarrow> nat \<Rightarrow> pstate \<Rightarrow> unit result" where
  "closeUnneededPipes_loop w me pipes sz ind i st =
     (if int i < int sz - 1 then
        (case (if int i \<noteq> int ind - 1 then sys_close w me (fst (pipes ! i)) st
               else Some st) of
           None \<Rightarrow> Exit 127 (eprint (''Error closing file descriptor'' @ [NL]) st)
         | Some st1 \<Rightarrow>
             (case (if i \<noteq> ind then sys_close w me (snd (pipes ! i)) st1 else Some st1) of
                None \<Rightarrow> Exit 127 (eprint (''Error closing file descriptor'' @ [NL]) st1)
              | Some st2 \<Rightarrow> closeUnneededPipes_loop w me pipes sz ind (Suc i) st2))
      else Return () st)"
  by pat_completeness auto
termination
  by (relation "measure (\<lambda>(w, me, pipes, sz, ind, i, st). sz - i)") auto

declare closeUnneededPipes_loop.simps [simp del]

definition closeUnneededPipes ::
  "world \<Rightarrow> who \<Rightarrow> (fd \<times> fd) list \<Rightarrow> nat \<Rightarrow> nat \<Rightarrow> pstate \<Rightarrow> unit result" where
  "closeUnneededPipes w me pipes sz ind st = closeUnneededPipes_loop w me pipes sz ind 0 st"

text \<open>
  runChild runs in the child forked for stage \<open>ind\<close>, on a copy of the shell's state.
  Its only return statement is \<open>return -1\<close>, which \<open>Return ()\<close> stands for.
  \<open>currProcesses->size\<close> is the number of stages, \<open>length procs\<close>.
\<close>

definition runChild ::
  "world \<Rightarrow> string list list \<Rightarrow> (fd \<times> fd) list \<Rightarrow> nat \<Rightarrow> pstate \<Rightarrow> unit result" where
  "runChild w procs pipes ind st =
     bind (closeUnneededPipes w (Child ind) pipes (length procs) ind st) (\<lambda>_ st1.
       case (if ind \<noteq> 0
             then sys_dup2 w (Child ind) (fst (pipes ! (ind - 1))) STDIN_FILENO st1
             else Some st1) of
         None \<Rightarrow> Exit 127 (eprint ''IO Duplication Error'' st1)
       | Some st2 \<Rightarrow>
           (case (if int ind \<noteq> int (length procs) - 1
                  then sys_dup2 w (Child ind) (snd (pipes ! ind)) STDOUT_FILENO st2
                  else Some st2) of
              None \<Rightarrow> Exit 127 (eprint ''IO Duplication Error'' st2)
            | Some st3 \<Rightarrow>
                (case procs ! ind of
                   [] \<Rightarrow> Fault NullProgram
                 | name # _ \<Rightarrow>
                     if exec_fails w ind
                     then Return () (eprint (''jsh error: Command not found: ''
                                              @ c_str name @ [NL]) st3)
                     else Exec (procs ! ind) st3)))"

text \<open>
  What becomes of the child that \<open>fork()\<close> creates for stage \<open>i\<close>: in it \<open>pids[i] == 0\<close>,
  runChild is called, and when that returns the child calls \<open>exit(127)\<close>.
  \<open>Exit c st'\<close> keeps the state \<open>st'\<close> in which the process ends. Besides ending the
  child, \<open>exit\<close> runs the cleanup of stdio on the streams that the child inherited from
  the shell: what that does to a standard input that the child shares with the shell
  is \<open>exit_cleanup\<close>, in the section on standard input as a regular file.
\<close>

definition child ::
  "world \<Rightarrow> string list list \<Rightarrow> (fd \<times> fd) list \<Rightarrow> nat \<Rightarrow> pstate \<Rightarrow> unit result" where
  "child w procs pipes i st = bind (runChild w procs pipes i st) (\<lambda>_ st'. Exit 127 st')"

text \<open>The wait status the shell can collect for a child.\<close>

definition wait_status :: "world \<Rightarrow> nat \<Rightarrow> unit result \<Rightarrow> int option" where
  "wait_status w i r =
     (case r of
        Exit c _ \<Rightarrow> Some (W_EXITCODE c)
      | Exec _ _ \<Rightarrow> Some (program_status w i)
      | _ \<Rightarrow> None)"

text \<open>
  The children that have ended, in the order in which they end: each with its pid
  and wait status.
\<close>

definition ended_children ::
  "world \<Rightarrow> string list list \<Rightarrow> (fd \<times> fd) list \<Rightarrow> pstate \<Rightarrow> int list \<Rightarrow> (int \<times> int) list" where
  "ended_children w procs pipes st pids =
     List.map_filter
       (\<lambda>i. if i < length pids
            then map_option (\<lambda>s. (pids ! i, s)) (wait_status w i (child w procs pipes i st))
            else None)
       (finish_order w)"

text \<open>The loop of execute, in the shell: \<open>pids[i] = fork()\<close> is positive or negative.\<close>

function fork_loop :: "world \<Rightarrow> nat \<Rightarrow> nat \<Rightarrow> int list \<Rightarrow> pstate \<Rightarrow> int list result" where
  "fork_loop w sz i pids st =
     (if i < sz then
        (case sys_fork w i of
           None \<Rightarrow> Exit EXIT_FAILURE (eprint ''Fork Error'' st)
         | Some pid \<Rightarrow> fork_loop w sz (Suc i) (pids @ [pid]) st)
      else Return pids st)"
  by pat_completeness auto
termination
  by (relation "measure (\<lambda>(w, sz, i, pids, st). sz - i)") auto

declare fork_loop.simps [simp del]

text \<open>
  \<open>int status\<close> is not initialised: it has no value (\<open>None\<close>) until waitpid writes it.
  In \<open>close(..) == -1 || close(..) == -1\<close> the second call is made only when the
  first succeeded.
\<close>

function waitOnProcesses_loop ::
  "world \<Rightarrow> (int \<times> int) list \<Rightarrow> (fd \<times> fd) list \<Rightarrow> int list \<Rightarrow> nat \<Rightarrow> nat \<Rightarrow>
     int option \<Rightarrow> pstate \<Rightarrow> int result" where
  "waitOnProcesses_loop w ended pipes pids sz i status st =
     (if i < sz then
        (case sys_close w Shell (fst (pipes ! i)) st of
           None \<Rightarrow> Exit EXIT_FAILURE (eprint ''Error closing file descriptor'' st)
         | Some st1 \<Rightarrow>
             (case sys_close w Shell (snd (pipes ! i)) st1 of
                None \<Rightarrow> Exit EXIT_FAILURE (eprint ''Error closing file descriptor'' st1)
              | Some st2 \<Rightarrow>
                  (case sys_waitpid w ended (pids ! i) of
                     WaitError \<Rightarrow>
                       Exit EXIT_FAILURE
                         (eprint ''Error waiting for child process to run'' st2)
                   | WaitForever \<Rightarrow> Blocked st2
                   | WaitStatus s \<Rightarrow>
                       waitOnProcesses_loop w ended pipes pids sz (Suc i) (Some s) st2)))
      else (case status of
              None \<Rightarrow> Fault NoStatus
            | Some s \<Rightarrow> Return (WEXITSTATUS s) st))"
  by pat_completeness auto
termination
  by (relation "measure (\<lambda>(w, ended, pipes, pids, sz, i, status, st). sz - i)") auto

declare waitOnProcesses_loop.simps [simp del]

definition waitOnProcesses ::
  "world \<Rightarrow> (int \<times> int) list \<Rightarrow> (fd \<times> fd) list \<Rightarrow> int list \<Rightarrow> nat \<Rightarrow> pstate \<Rightarrow> int result" where
  "waitOnProcesses w ended pipes pids sz st =
     waitOnProcesses_loop w ended pipes pids sz 0 None st"

text \<open>
  execute, as the shell process runs it. Every child is a copy of the shell as
  makePipes left it (\<open>st1\<close>): between two forks the shell changes nothing but \<open>pids\<close>.
\<close>

definition execute :: "world \<Rightarrow> string list list \<Rightarrow> pstate \<Rightarrow> unit result" where
  "execute w procs st =
     bind (makePipes w (length procs) st) (\<lambda>pipes st1.
       bind (fork_loop w (length procs) 0 [] st1) (\<lambda>pids st2.
         bind (waitOnProcesses w (ended_children w procs pipes st1 pids) pipes pids
                 (length procs) st2)
           (\<lambda>status st3. Return () (print (Status status) st3))))"


section \<open>The command loop of shell.c\<close>

text \<open>
  \<open>fgets(input, sizeof(input), stdin)\<close> on the bytes of standard input not yet read:
  it stores at most \<open>BUFFER_SIZE - 1\<close> bytes, stopping after a newline, then a NUL;
  the rest of the array keeps the bytes it held. \<open>None\<close> is the return value NULL:
  nothing could be read.
\<close>

definition fgets :: "string \<Rightarrow> string \<Rightarrow> (string \<times> string) option" where
  "fgets buf pending =
     (if pending = [] then None
      else
        let line = takeWhile (\<lambda>c. c \<noteq> NL) (take (BUFFER_SIZE - 1) pending);
            chunk = (if length line < BUFFER_SIZE - 1 \<and> length line < length pending
                     then line @ [NL] else line)
        in Some (chunk @ [NUL] @ drop (Suc (length chunk)) buf,
                 drop (length chunk) pending))"

lemma fgets_shorter:
  assumes "fgets buf pending = Some (input, rest)"
  shows "length rest < length pending"
proof -
  from assms have ne: "pending \<noteq> []" by (auto simp: fgets_def split: if_splits)
  show ?thesis
  proof (cases "takeWhile (\<lambda>c. c \<noteq> NL) (take (BUFFER_SIZE - 1) pending) = []")
    case True
    with assms ne show ?thesis
      by (auto simp: fgets_def Let_def BUFFER_SIZE_def split: if_splits)
  next
    case False
    with assms ne show ?thesis
      by (auto simp: fgets_def Let_def split: if_splits)
  qed
qed

text \<open>
  main: \<open>pending\<close> is what standard input still holds and \<open>read_error\<close> says whether
  reading past it fails with an error (\<open>ferror\<close>) instead of reaching end of input.
  Standard input is here a sequence of bytes that are read once, as from a terminal
  or a pipe; \<open>main_loop_file\<close> below is main on a regular file.
  \<open>buf\<close> is the memory of the array \<open>input\<close>, which is not initialised.
  \<open>return 1\<close> ends the process with status 1; leaving the loop reaches the end of
  main, which ends it with status 0.
\<close>

function main_loop :: "world \<Rightarrow> string \<Rightarrow> string \<Rightarrow> bool \<Rightarrow> pstate \<Rightarrow> unit result" where
  "main_loop w buf pending read_error st =
     (case fgets buf pending of
        None \<Rightarrow>
          Exit 1 (if read_error
                  then eprint (''Error occured reading from stdin'' @ [NL]) (print Prompt st)
                  else print Prompt st)
      | Some (input, rest) \<Rightarrow>
          (case makeProcesses input of
             Inl e \<Rightarrow> Fault e
           | Inr procs \<Rightarrow>
               (case procs of
                  [] \<Rightarrow> main_loop w input rest read_error (print Prompt st)
                | [] # _ \<Rightarrow> Fault NullProgram
                | (name # _) # _ \<Rightarrow>
                    if c_str name = ''exit'' then Exit 0 (print Prompt st)
                    else
                      (case execute w procs (print Prompt st) of
                         Return _ st2 \<Rightarrow> main_loop w input rest read_error st2
                       | Exit c st2 \<Rightarrow> Exit c st2
                       | Exec a st2 \<Rightarrow> Exec a st2
                       | Blocked st2 \<Rightarrow> Blocked st2
                       | Fault e \<Rightarrow> Fault e))))"
  by pat_completeness auto
termination
proof (relation "measure (\<lambda>(w, buf, pending, read_error, st). length pending)", goal_cases)
  case 1
  show ?case by simp
next
  case (2 w buf pending read_error st r input rest)
  then show ?case using fgets_shorter [of buf pending input rest] by simp
next
  case (3 w buf pending read_error st r input rest)
  then show ?case using fgets_shorter [of buf pending input rest] by simp
qed

declare main_loop.simps [simp del]

definition main :: "world \<Rightarrow> string \<Rightarrow> string \<Rightarrow> bool \<Rightarrow> pstate \<Rightarrow> unit result" where
  "main w buf pending read_error st = main_loop w buf pending read_error st"

section \<open>Standard input as a regular file shared with the children\<close>

text \<open>
  The shell reads standard input through stdio (\<open>fgets\<close>, src/shell.c:73). When
  descriptor 0 is a regular file, stdio reads it a block at a time: \<open>unread\<close> holds the
  bytes of the last block that fgets has not consumed yet, in the memory of the
  shell, and \<open>offset\<close> is the offset of the open file, which stands behind the last
  block read. \<open>fork()\<close> copies the memory of the shell, so that a child starts with
  the same unread bytes in its own buffer, and it shares the open file, offset
  included, with the shell.
\<close>

record stdin_file =
  content :: string       \<comment> \<open>the bytes of the file\<close>
  offset :: nat           \<comment> \<open>the offset of the open file, shared by the shell and its children\<close>
  unread :: string        \<comment> \<open>the bytes read from the file that fgets has not consumed\<close>
  eof_seen :: bool        \<comment> \<open>a read has returned 0: the stream stays at end of file\<close>

definition STDIO_BLOCK :: nat where "STDIO_BLOCK = 4096"

text \<open>
  What stdio does when fgets needs a byte and the buffer is empty: \<open>read(0, ..)\<close> of
  one block at the offset of the file.
\<close>

definition underflow :: "stdin_file \<Rightarrow> stdin_file" where
  "underflow f =
     (if eof_seen f then f
      else let bytes = take STDIO_BLOCK (drop (offset f) (content f))
           in if bytes = [] then f\<lparr>eof_seen := True\<rparr>
              else f\<lparr>offset := offset f + length bytes, unread := bytes\<rparr>)"

text \<open>
  \<open>fgets\<close> byte by byte: it stores at most \<open>k\<close> more bytes after the bytes \<open>acc\<close>, and
  stops behind a newline or at the end of the file.
\<close>

function fgets_loop :: "nat \<Rightarrow> string \<Rightarrow> stdin_file \<Rightarrow> string \<times> stdin_file" where
  "fgets_loop k acc f =
     (if k = 0 then (acc, f)
      else (case unread f of
              [] \<Rightarrow>
                (let f' = underflow f
                 in if unread f' = [] then (acc, f') else fgets_loop k acc f')
            | c # cs \<Rightarrow>
                if c = NL then (acc @ [c], f\<lparr>unread := cs\<rparr>)
                else fgets_loop (k - 1) (acc @ [c]) (f\<lparr>unread := cs\<rparr>)))"
  by pat_completeness auto
termination
  by (relation "measure (\<lambda>(k, acc, f). 2 * k + (if unread f = [] then 1 else 0))") auto

declare fgets_loop.simps [simp del]

text \<open>
  \<open>fgets(input, sizeof(input), stdin)\<close> on the file: the array after the call (\<open>None\<close> is
  the return value NULL, when no byte could be read), and the file after the call.
\<close>

definition fgets_file :: "string \<Rightarrow> stdin_file \<Rightarrow> string option \<times> stdin_file" where
  "fgets_file buf f =
     (case fgets_loop (BUFFER_SIZE - 1) [] f of
        (chunk, f') \<Rightarrow>
          (if chunk = [] then None
           else Some (chunk @ [NUL] @ drop (Suc (length chunk)) buf), f'))"

text \<open>
  A child of the shell ends by \<open>exit\<close> (src/shell.c:117, 150, 158, 260, 264), not by
  \<open>_exit\<close>. Before the process ends, \<open>exit\<close> runs the cleanup of stdio, which gives the
  unread bytes of an input stream back to its file: \<open>lseek(0, -n, SEEK_CUR)\<close> for the
  \<open>n\<close> bytes unread in the buffer of the child, which are those of the shell when it
  forked. The offset moves when descriptor 0 of the child (in the state \<open>st'\<close> in which
  it ends) still is the regular file; where dup2 has put a pipe end in its place, and
  on a terminal, lseek fails and nothing moves, as when the offset would become
  negative. (The same cleanup writes out the child's copy of what the shell has
  buffered for standard output; \<open>out\<close> lists what the shell itself prints.)
\<close>

definition exit_cleanup :: "pstate \<Rightarrow> stdin_file \<Rightarrow> stdin_file" where
  "exit_cleanup st' f =
     (if fds st' STDIN_FILENO = Some RegularFile \<and> length (unread f) \<le> offset f
      then f\<lparr>offset := offset f - length (unread f)\<rparr> else f)"

text \<open>
  The file after the children of a pipeline have ended: each child that ends by
  \<open>exit\<close> runs the cleanup. A child whose program was executed no longer runs the code
  of the shell; the programs are taken to leave standard input alone.
\<close>

definition children_exits ::
  "world \<Rightarrow> string list list \<Rightarrow> (fd \<times> fd) list \<Rightarrow> pstate \<Rightarrow> stdin_file \<Rightarrow> stdin_file" where
  "children_exits w procs pipes st f =
     fold (\<lambda>i g. case child w procs pipes i st of
                    Exit c st' \<Rightarrow> exit_cleanup st' g
                  | _ \<Rightarrow> g)
       [0..<length procs] f"

text \<open>
  The file when execute has returned in the shell: waitOnProcesses has waited for
  every child, so every child has ended.
\<close>

definition stdin_after_execute ::
  "world \<Rightarrow> string list list \<Rightarrow> pstate \<Rightarrow> stdin_file \<Rightarrow> stdin_file" where
  "stdin_after_execute w procs st f =
     (case makePipes w (length procs) st of
        Return pipes st1 \<Rightarrow> children_exits w procs pipes st1 f
      | _ \<Rightarrow> f)"

text \<open>
  main on a regular file that is read without error: as \<open>main_loop\<close>, with fgets
  reading through the buffer of stdio and with the exits of the children between
  two prompts. A child can move the offset back, so the length of the file does not
  bound the number of lines that the shell reads: the loop is given fuel, one unit
  for each prompt, and \<open>None\<close> says that the fuel ran out.
\<close>

fun main_loop_file ::
  "nat \<Rightarrow> world \<Rightarrow> string \<Rightarrow> stdin_file \<Rightarrow> pstate \<Rightarrow> unit result option" where
  "main_loop_file 0 w buf f st = None"
| "main_loop_file (Suc fuel) w buf f st =
     (case fgets_file buf f of
        (None, f1) \<Rightarrow> Some (Exit 1 (print Prompt st))
      | (Some input, f1) \<Rightarrow>
          (case makeProcesses input of
             Inl e \<Rightarrow> Some (Fault e)
           | Inr procs \<Rightarrow>
               (case procs of
                  [] \<Rightarrow> main_loop_file fuel w input f1 (print Prompt st)
                | [] # _ \<Rightarrow> Some (Fault NullProgram)
                | (name # _) # _ \<Rightarrow>
                    if c_str name = ''exit'' then Some (Exit 0 (print Prompt st))
                    else
                      (case execute w procs (print Prompt st) of
                         Return _ st2 \<Rightarrow>
                           main_loop_file fuel w input
                             (stdin_after_execute w procs (print Prompt st) f1) st2
                       | Exit c st2 \<Rightarrow> Some (Exit c st2)
                       | Exec a st2 \<Rightarrow> Some (Exec a st2)
                       | Blocked st2 \<Rightarrow> Some (Blocked st2)
                       | Fault e \<Rightarrow> Some (Fault e)))))"

text \<open>
  The bytes that fgets stores from a buffer holding \<open>u\<close> when the file has no more to
  give, written as in \<open>fgets\<close> above.
\<close>

definition chunk_of :: "nat \<Rightarrow> string \<Rightarrow> string" where
  "chunk_of k u =
     (let line = takeWhile (\<lambda>c. c \<noteq> NL) (take k u)
      in if length line < k \<and> length line < length u then line @ [NL] else line)"

section \<open>Invariants used in the proofs\<close>

text \<open>
  The pipes of the array are open in the descriptor table \<open>t\<close>: the two descriptors of
  \<open>pipes[i]\<close> refer to the two ends of pipe \<open>k0 + i\<close>, and no descriptor occurs twice.
\<close>

definition pipes_open :: "nat \<Rightarrow> (fd \<times> fd) list \<Rightarrow> (fd \<rightharpoonup> endpoint) \<Rightarrow> bool" where
  "pipes_open k0 pipes t \<longleftrightarrow>
     distinct (map fst pipes @ map snd pipes) \<and>
     (\<forall>i < length pipes. t (fst (pipes ! i)) = Some (PipeEnd (k0 + i) ReadEnd) \<and>
                          t (snd (pipes ! i)) = Some (PipeEnd (k0 + i) WriteEnd))"



text \<open>The descriptors that closeUnneededPipes closes in the child \<open>ind\<close> from iteration \<open>i\<close> on.\<close>

definition closed_from :: "(fd \<times> fd) list \<Rightarrow> nat \<Rightarrow> nat \<Rightarrow> nat \<Rightarrow> fd set" where
  "closed_from pipes n ind i =
     {fst (pipes ! j) | j. i \<le> j \<and> Suc j < n \<and> Suc j \<noteq> ind} \<union>
     {snd (pipes ! j) | j. i \<le> j \<and> Suc j < n \<and> j \<noteq> ind}"

section \<open>A shell and a world to run the model in\<close>

text \<open>A shell process whose descriptors 0, 1 and 2 are the terminal.\<close>

definition fresh_shell :: pstate where
  "fresh_shell = \<lparr>fds = [0 \<mapsto> Terminal, 1 \<mapsto> Terminal, 2 \<mapsto> Terminal],
                   pipes_made = 0, err = [], out = []\<rparr>"

text \<open>
  A world in which no call fails and every program is found: the program of stage \<open>i\<close>
  exits with status \<open>i + 5\<close>, and the stages end in the order 2, 0, 1.
\<close>

definition quiet_world :: world where
  "quiet_world = \<lparr>fd_limit = 16, first_pid = 100, fork_fails = (\<lambda>_. False),
                   close_fails = (\<lambda>_ _. False), dup2_fails = (\<lambda>_ _ _. False),
                   wait_fails = (\<lambda>_. False), exec_fails = (\<lambda>_. False),
                   program_status = (\<lambda>i. W_EXITCODE (int i + 5)),
                   finish_order = [2, 0, 1]\<rparr>"

text \<open>The descriptor table of the child of stage \<open>i\<close> when it reaches execvp.\<close>

definition table_at_exec ::
  "(fd \<times> fd) list \<Rightarrow> nat \<Rightarrow> nat \<Rightarrow> (fd \<rightharpoonup> endpoint) \<Rightarrow> (fd \<rightharpoonup> endpoint)" where
  "table_at_exec pipes n i t =
     (let t1 = (\<lambda>x. if x \<in> closed_from pipes n i 0 then None else t x);
          t2 = (if i \<noteq> 0 then t1(STDIN_FILENO := t1 (fst (pipes ! (i - 1)))) else t1)
      in if Suc i \<noteq> n then t2(STDOUT_FILENO := t2 (snd (pipes ! i))) else t2)"

text \<open>That shell after makePipes has created one pipe, and two pipes.\<close>

definition shell_1pipe :: pstate where
  "shell_1pipe = fresh_shell\<lparr>fds := (fds fresh_shell)
                     (3 \<mapsto> PipeEnd 0 ReadEnd, 4 \<mapsto> PipeEnd 0 WriteEnd),
                   pipes_made := 1\<rparr>"

definition shell_2pipes :: pstate where
  "shell_2pipes = fresh_shell\<lparr>fds := (fds fresh_shell)
                     (3 \<mapsto> PipeEnd 0 ReadEnd, 4 \<mapsto> PipeEnd 0 WriteEnd,
                      5 \<mapsto> PipeEnd 1 ReadEnd, 6 \<mapsto> PipeEnd 1 WriteEnd),
                   pipes_made := 2\<rparr>"

text \<open>A line of 2049 bytes (before its newline), longer than the buffer.\<close>

definition long_line :: string where
  "long_line = ''ls||'' @ replicate 2043 (CHR ''x'') @ ''wc''"

text \<open>
  A shell whose standard input is a regular file, a file of two lines at its start,
  and a world in which no program is found.
\<close>

definition shell_on_file :: pstate where
  "shell_on_file = fresh_shell\<lparr>fds := (fds fresh_shell)(STDIN_FILENO \<mapsto> RegularFile)\<rparr>"

definition two_lines :: string where
  "two_lines = ''nosuchprog1'' @ [NL] @ ''nosuchprog2'' @ [NL]"

definition file_at_start :: "string \<Rightarrow> stdin_file" where
  "file_at_start bytes = \<lparr>content = bytes, offset = 0, unread = [], eof_seen = False\<rparr>"

definition nothing_found :: world where
  "nothing_found = quiet_world\<lparr>exec_fails := (\<lambda>_. True)\<rparr>"

text \<open>That file when fgets has handed out its first line.\<close>

definition after_first_line :: stdin_file where
  "after_first_line =
     \<lparr>content = two_lines, offset = 24, unread = ''nosuchprog2'' @ [NL], eof_seen = False\<rparr>"

section \<open>Properties of the tokenizer\<close>

lemma argBoundary_iff: "argBoundary input k \<longleftrightarrow> endOfArg input k \<or> input ! k = SP"
  by (auto simp: argBoundary_def endOfArg_def)

lemma makeArgument_loop_run:
  assumes "ind \<le> j" and "\<forall>k. ind \<le> k \<and> k < j \<longrightarrow> \<not> argBoundary input k"
    and "argBoundary input j" and "length acc + (j - ind) < MAX_WORD_LENGTH"
  shows "makeArgument_loop input ind acc = Inr (acc @ map ((!) input) [ind..<j], j)"
  using assms
proof (induction "j - ind" arbitrary: ind acc)
  case 0
  then have "ind = j" by simp
  with 0 show ?case
    by (subst makeArgument_loop.simps) (auto simp: argBoundary_iff)
next
  case (Suc n)
  then have lt: "ind < j" by simp
  with Suc.prems have nb: "\<not> argBoundary input ind" by simp
  have "makeArgument_loop input (Suc ind) (acc @ [input ! ind]) =
          Inr ((acc @ [input ! ind]) @ map ((!) input) [Suc ind..<j], j)"
    using Suc.hyps(2) Suc.prems lt by (intro Suc.hyps(1)) auto
  moreover have "[ind..<j] = ind # [Suc ind..<j]" using lt by (simp add: upt_conv_Cons)
  ultimately show ?case using nb Suc.prems(4) lt
    by (subst makeArgument_loop.simps) (auto simp: argBoundary_iff)
qed

lemma skipSpaces_run:
  assumes "ind \<le> k" and "\<forall>j. ind \<le> j \<and> j < k \<longrightarrow> input ! j = SP \<and> j < BUFFER_SIZE"
    and "endOfArg input k \<or> input ! k \<noteq> SP"
  shows "skipSpaces input ind = k"
  using assms
proof (induction "k - ind" arbitrary: ind)
  case 0
  then show ?case by (subst skipSpaces.simps) auto
next
  case (Suc n)
  then have lt: "ind < k" by simp
  with Suc.prems have sp: "input ! ind = SP" and "ind < BUFFER_SIZE" by auto
  then have ne: "\<not> endOfArg input ind"
    by (simp add: endOfArg_def SP_def NL_def EOF_byte_def BAR_def)
  have "skipSpaces input (Suc ind) = k"
    using Suc.hyps(2) Suc.prems lt by (intro Suc.hyps(1)) auto
  with sp ne show ?case by (subst skipSpaces.simps) simp
qed

lemma makeProcess_loop_only_spaces:
  assumes "endOfArg input (skipSpaces input ind)"
  shows "makeProcess_loop input ind [] = Inr ([], skipSpaces input ind)"
proof (cases "endOfArg input ind")
  case True
  then have "skipSpaces input ind = ind" by (subst skipSpaces.simps) simp
  with True show ?thesis by (simp add: makeProcess_loop_at_end MAX_WORDS_def)
next
  case False
  with assms show ?thesis
    by (subst makeProcess_loop.simps) (simp add: makeProcess_loop_at_end MAX_WORDS_def)
qed

lemma makeProcesses_loop_nonempty:
  "makeProcesses_loop input ind procs = Inr procs' \<Longrightarrow> [] \<notin> set procs \<Longrightarrow> [] \<notin> set procs'"
proof (induction input ind procs rule: makeProcesses_loop.induct)
  case (1 input ind procs)
  from "1.prems"(1) obtain currArgs ind' where
    mp: "makeProcess input ind = Inr (currArgs, ind')"
    by (subst (asm) makeProcesses_loop.simps) (auto split: sum.splits)
  show ?case
  proof (cases "currArgs = []")
    case True
    with mp "1.prems" show ?thesis
      by (subst (asm) makeProcesses_loop.simps) simp
  next
    case False
    with mp "1.prems"(1) have ok: "\<not> MAX_PROCESSES \<le> length procs"
      and rec: "makeProcesses_loop input ind' (procs @ [currArgs]) = Inr procs'"
      by (subst (asm) makeProcesses_loop.simps, simp split: if_splits)+
    from False "1.prems"(2) have "[] \<notin> set (procs @ [currArgs])" by auto
    with "1.IH" [OF mp refl False ok rec] show ?thesis by simp
  qed
qed

text \<open>
  C10. Every pipeline that makeProcesses returns (and main hands to execute) has only
  stages with at least one argument: the collecting loop stops at the first stage
  without arguments and does not store it.
\<close>

theorem pipeline_stages_nonempty:
  "makeProcesses input = Inr procs \<Longrightarrow> [] \<notin> set procs"
  using makeProcesses_loop_nonempty [of input 0 "[]" procs]
  by (simp add: makeProcesses_def)

theorem pipeline_stages_nonempty_witness:
  "makeProcesses (buffer_of (''echo hi | cat'' @ [NL])) = Inr [[''echo'', ''hi''], [''cat'']]
   \<and> [] \<notin> set [[''echo'', ''hi''], [''cat'']]"
proof -
  have h: "makeProcesses (buffer_of (''echo hi | cat'' @ [NL]))
             = Inr [[''echo'', ''hi''], [''cat'']]"
    by code_simp
  show ?thesis using h pipeline_stages_nonempty [OF h] by simp
qed

text \<open>
  C4, as the spec states it, fails: for a line with two pipe symbols in a row, with a
  pipe symbol first, or with a pipe symbol last, the pipeline that makeProcesses
  returns holds no stage without arguments.
\<close>

theorem empty_stage_not_in_pipeline:
  "makeProcesses (buffer_of (''ls || wc'' @ [NL])) = Inr [[''ls'']] \<and>
   makeProcesses (buffer_of (''| wc'' @ [NL])) = Inr [] \<and>
   makeProcesses (buffer_of (''ls |'' @ [NL])) = Inr [[''ls'']]"
proof -
  have "makeProcesses (buffer_of (''ls || wc'' @ [NL])) = Inr [[''ls'']]" by code_simp
  moreover have "makeProcesses (buffer_of (''| wc'' @ [NL])) = Inr []" by code_simp
  moreover have "makeProcesses (buffer_of (''ls |'' @ [NL])) = Inr [[''ls'']]" by code_simp
  ultimately show ?thesis by simp
qed

text \<open>
  C4, amended. Where a stage starts at \<open>ind\<close> and only spaces come before a pipe symbol
  or the newline at \<open>k\<close>, makeProcess does not reject the line: it returns a stage
  without arguments (and steps over the pipe symbol). The collecting loop of
  makeProcesses stops there: the pipeline is the stages collected before, without the
  empty stage and without anything that follows it on the line.
\<close>

theorem empty_stage_stops_collection:
  assumes "ind \<le> k" and "k < BUFFER_SIZE"
    and "\<forall>j. ind \<le> j \<and> j < k \<longrightarrow> input ! j = SP"
    and "input ! k = BAR \<or> input ! k = NL"
  shows "makeProcess input ind = Inr ([], if input ! k = BAR then Suc k else k) \<and>
         makeProcesses_loop input ind procs = Inr procs"
proof -
  from assms(4) have e: "endOfArg input k" by (auto simp: endOfArg_def)
  have "skipSpaces input ind = k"
    using assms(1,2,3) e by (intro skipSpaces_run) auto
  with e have "makeProcess_loop input ind [] = Inr ([], k)"
    using makeProcess_loop_only_spaces [of input ind] by simp
  then have mp: "makeProcess input ind = Inr ([], if input ! k = BAR then Suc k else k)"
    using assms(2) by (simp add: makeProcess_def)
  then have "makeProcesses_loop input ind procs = Inr procs"
    by (subst makeProcesses_loop.simps) simp
  with mp show ?thesis by simp
qed

theorem empty_stage_stops_collection_witness:
  "makeProcess (buffer_of (''ls | | wc'' @ [NL])) 4 = Inr ([], 6) \<and>
   makeProcesses_loop (buffer_of (''ls | | wc'' @ [NL])) 4 [[''ls'']] = Inr [[''ls'']]"
proof -
  let ?b = "buffer_of (''ls | | wc'' @ [NL])"
  have b4: "?b ! 4 = SP" by code_simp
  have b5: "?b ! 5 = BAR" by code_simp
  have h1: "(4::nat) \<le> 5" by simp
  have h2: "(5::nat) < BUFFER_SIZE" by (simp add: BUFFER_SIZE_def)
  have h3: "\<forall>j. (4::nat) \<le> j \<and> j < 5 \<longrightarrow> ?b ! j = SP"
  proof (intro allI impI)
    fix j :: nat
    assume "4 \<le> j \<and> j < 5"
    then have "j = 4" by linarith
    with b4 show "?b ! j = SP" by simp
  qed
  from b5 have h4: "?b ! 5 = BAR \<or> ?b ! 5 = NL" by simp
  show ?thesis
    using empty_stage_stops_collection [OF h1 h2 h3 h4, of "[[''ls'']]"] b5 by simp
qed

text \<open>
  C9, as the spec states it, fails: a tab does not end the argument being read. In
  \<open>a<TAB>b\<close> the one argument read from position 0 is all three bytes.
\<close>

theorem tab_does_not_end_argument:
  "makeArgument (buffer_of ([CHR ''a'', CHR 0x09, CHR ''b'', NL])) 0
     = Inr ([CHR ''a'', CHR 0x09, CHR ''b''], 3)"
  by code_simp

text \<open>
  C9, amended. The argument that makeArgument reads from \<open>ind\<close> ends precisely at the
  first position \<open>j\<close> that is past the buffer or holds a space, a newline, a pipe
  symbol or the byte equal to \<open>EOF\<close>: it is the bytes from \<open>ind\<close> up to \<open>j\<close>, whatever
  they are (a tab, any other white space and NUL included), provided they fit the
  \<open>MAX_WORD_LENGTH\<close> bytes allocated for them and their terminator.
\<close>

theorem makeArgument_boundary:
  assumes "ind \<le> j" and "\<forall>k. ind \<le> k \<and> k < j \<longrightarrow> \<not> argBoundary input k"
    and "argBoundary input j" and "j - ind < MAX_WORD_LENGTH"
  shows "makeArgument input ind = Inr (map ((!) input) [ind..<j], j)"
  using makeArgument_loop_run [OF assms(1,2,3), of "[]"] assms(4)
  by (simp add: makeArgument_def)

theorem makeArgument_boundary_witness:
  "makeArgument (buffer_of ([CHR ''a'', CHR 0x09, CHR ''b'', NL])) 0
     = Inr (map ((!) (buffer_of ([CHR ''a'', CHR 0x09, CHR ''b'', NL]))) [0..<3], 3)"
proof -
  let ?b = "buffer_of ([CHR ''a'', CHR 0x09, CHR ''b'', NL])"
  have n0: "\<not> argBoundary ?b 0" by code_simp
  have n1: "\<not> argBoundary ?b 1" by code_simp
  have n2: "\<not> argBoundary ?b 2" by code_simp
  have h2: "\<forall>k. (0::nat) \<le> k \<and> k < 3 \<longrightarrow> \<not> argBoundary ?b k"
  proof (intro allI impI)
    fix k :: nat
    assume "0 \<le> k \<and> k < 3"
    then consider "k = 0" | "k = 1" | "k = 2" by linarith
    then show "\<not> argBoundary ?b k" using n0 n1 n2 by cases simp_all
  qed
  have h3: "argBoundary ?b 3" by code_simp
  have h4: "(3::nat) - 0 < MAX_WORD_LENGTH" by (simp add: MAX_WORD_LENGTH_def)
  show ?thesis using makeArgument_boundary [OF _ h2 h3 h4] by simp
qed
section \<open>Properties of the executor\<close>

lemma lowest_free_Some: "lowest_free w t = Some d \<Longrightarrow> t d = None \<and> d < fd_limit w"
  by (auto simp: lowest_free_def find_Some_iff)

lemma sys_pipe_Some:
  assumes "sys_pipe w st = Some ((r, wr), st')"
  shows "fds st r = None" and "fds st wr = None" and "r \<noteq> wr"
    and "st' = st\<lparr>fds := (fds st)(r \<mapsto> PipeEnd (pipes_made st) ReadEnd,
                                 wr \<mapsto> PipeEnd (pipes_made st) WriteEnd),
                 pipes_made := Suc (pipes_made st)\<rparr>"
proof -
  from assms obtain
    a: "lowest_free w (fds st) = Some r" and
    b: "lowest_free w ((fds st)(r \<mapsto> PipeEnd (pipes_made st) ReadEnd)) = Some wr" and
    c: "st' = st\<lparr>fds := (fds st)(r \<mapsto> PipeEnd (pipes_made st) ReadEnd,
                                 wr \<mapsto> PipeEnd (pipes_made st) WriteEnd),
                 pipes_made := Suc (pipes_made st)\<rparr>"
    by (auto simp: sys_pipe_def split: option.splits)
  from a show "fds st r = None" by (simp add: lowest_free_Some)
  from lowest_free_Some [OF b] show "fds st wr = None" and "r \<noteq> wr"
    by (auto split: if_splits)
  from c show "st' = st\<lparr>fds := (fds st)(r \<mapsto> PipeEnd (pipes_made st) ReadEnd,
                                 wr \<mapsto> PipeEnd (pipes_made st) WriteEnd),
                 pipes_made := Suc (pipes_made st)\<rparr>" .
qed

lemma pipes_open_snoc:
  assumes po: "pipes_open k0 pipes t" and r: "t r = None" and wr: "t wr = None" and ne: "r \<noteq> wr"
  shows "pipes_open k0 (pipes @ [(r, wr)])
           (t(r \<mapsto> PipeEnd (k0 + length pipes) ReadEnd, wr \<mapsto> PipeEnd (k0 + length pipes) WriteEnd))"
proof -
  have old: "\<And>i. i < length pipes \<Longrightarrow> fst (pipes ! i) \<noteq> r \<and> fst (pipes ! i) \<noteq> wr \<and>
                 snd (pipes ! i) \<noteq> r \<and> snd (pipes ! i) \<noteq> wr"
    using po r wr by (auto simp: pipes_open_def)
  have "\<And>p. p \<in> set pipes \<Longrightarrow> fst p \<noteq> r \<and> fst p \<noteq> wr \<and> snd p \<noteq> r \<and> snd p \<noteq> wr"
    using old by (metis in_set_conv_nth)
  then have notin: "r \<notin> fst ` set pipes" "wr \<notin> fst ` set pipes"
      "r \<notin> snd ` set pipes" "wr \<notin> snd ` set pipes"
    by auto
  have d: "distinct (map fst (pipes @ [(r, wr)]) @ map snd (pipes @ [(r, wr)]))"
    using po notin ne by (auto simp: pipes_open_def)
  have "\<forall>i < length (pipes @ [(r, wr)]).
          (t(r \<mapsto> PipeEnd (k0 + length pipes) ReadEnd, wr \<mapsto> PipeEnd (k0 + length pipes) WriteEnd))
             (fst ((pipes @ [(r, wr)]) ! i)) = Some (PipeEnd (k0 + i) ReadEnd) \<and>
          (t(r \<mapsto> PipeEnd (k0 + length pipes) ReadEnd, wr \<mapsto> PipeEnd (k0 + length pipes) WriteEnd))
             (snd ((pipes @ [(r, wr)]) ! i)) = Some (PipeEnd (k0 + i) WriteEnd)"
  proof (intro allI impI)
    fix i assume "i < length (pipes @ [(r, wr)])"
    then consider "i < length pipes" | "i = length pipes" by fastforce
    then show "(t(r \<mapsto> PipeEnd (k0 + length pipes) ReadEnd, wr \<mapsto> PipeEnd (k0 + length pipes) WriteEnd))
             (fst ((pipes @ [(r, wr)]) ! i)) = Some (PipeEnd (k0 + i) ReadEnd) \<and>
          (t(r \<mapsto> PipeEnd (k0 + length pipes) ReadEnd, wr \<mapsto> PipeEnd (k0 + length pipes) WriteEnd))
             (snd ((pipes @ [(r, wr)]) ! i)) = Some (PipeEnd (k0 + i) WriteEnd)"
    proof cases
      case 1
      with old [OF 1] po show ?thesis by (simp add: nth_append pipes_open_def)
    next
      case 2
      with ne show ?thesis by (simp add: nth_append)
    qed
  qed
  with d show ?thesis unfolding pipes_open_def by blast
qed

lemma makePipes_loop_post:
  assumes "makePipes_loop w n i pipes st = Return pipes' st'"
    and "length pipes = i" and "i \<le> n"
    and "pipes_open k0 pipes (fds st)" and "pipes_made st = k0 + i"
  shows "length pipes' = n \<and> pipes_open k0 pipes' (fds st') \<and> pipes_made st' = k0 + n \<and>
         (\<forall>d. fds st d \<noteq> None \<longrightarrow> fds st' d = fds st d) \<and>
         err st' = err st \<and> out st' = out st"
  using assms
proof (induction w n i pipes st rule: makePipes_loop.induct)
  case (1 w n i pipes st)
  show ?case
  proof (cases "i < n")
    case False
    with "1.prems" show ?thesis
      by (subst (asm) makePipes_loop.simps) auto
  next
    case True
    with "1.prems"(1) obtain r wr st1 where
      sp: "sys_pipe w st = Some ((r, wr), st1)" and
      rec: "makePipes_loop w n (Suc i) (pipes @ [(r, wr)]) st1 = Return pipes' st'"
      by (subst (asm) makePipes_loop.simps) (auto split: option.splits)
    note f = sys_pipe_Some [OF sp]
    have po1: "pipes_open k0 (pipes @ [(r, wr)]) (fds st1)"
      using pipes_open_snoc [OF "1.prems"(4) f(1) f(2) f(3)] f(4) "1.prems"(2,5) by simp
    have len1: "length (pipes @ [(r, wr)]) = Suc i" using "1.prems"(2) by simp
    have le1: "Suc i \<le> n" using True by simp
    have pm1: "pipes_made st1 = k0 + Suc i" using f(4) "1.prems"(5) by simp
    have "length pipes' = n \<and> pipes_open k0 pipes' (fds st') \<and> pipes_made st' = k0 + n \<and>
         (\<forall>d. fds st1 d \<noteq> None \<longrightarrow> fds st' d = fds st1 d) \<and>
         err st' = err st1 \<and> out st' = out st1"
      by (rule "1.IH" [OF True sp refl rec len1 le1 po1 pm1])
    moreover have "\<forall>d. fds st d \<noteq> None \<longrightarrow> fds st1 d = fds st d \<and> fds st1 d \<noteq> None"
      using f by auto
    moreover have "err st1 = err st" "out st1 = out st" using f(4) by simp_all
    ultimately show ?thesis by auto
  qed
qed

lemma makePipes_post:
  assumes "makePipes w n st = Return pipes st'"
  shows "length pipes = n \<and> pipes_open (pipes_made st) pipes (fds st') \<and>
         pipes_made st' = pipes_made st + n \<and>
         (\<forall>d. fds st d \<noteq> None \<longrightarrow> fds st' d = fds st d) \<and>
         err st' = err st \<and> out st' = out st"
  using makePipes_loop_post [of w n 0 "[]" st pipes st' "pipes_made st"] assms
  by (simp add: makePipes_def pipes_open_def)


lemma makePipes_loop_fresh:
  assumes "makePipes_loop w n i pipes st = Return pipes' st'" and "length pipes = i"
  shows "(\<exists>more. pipes' = pipes @ more) \<and>
         (\<forall>j. i \<le> j \<and> j < length pipes' \<longrightarrow>
              fds st (fst (pipes' ! j)) = None \<and> fds st (snd (pipes' ! j)) = None)"
  using assms
proof (induction w n i pipes st rule: makePipes_loop.induct)
  case (1 w n i pipes st)
  show ?case
  proof (cases "i < n")
    case False
    with "1.prems" show ?thesis
      by (subst (asm) makePipes_loop.simps) auto
  next
    case True
    with "1.prems"(1) obtain r wr st1 where
      sp: "sys_pipe w st = Some ((r, wr), st1)" and
      rec: "makePipes_loop w n (Suc i) (pipes @ [(r, wr)]) st1 = Return pipes' st'"
      by (subst (asm) makePipes_loop.simps) (auto split: option.splits)
    note f = sys_pipe_Some [OF sp]
    have len1: "length (pipes @ [(r, wr)]) = Suc i" using "1.prems"(2) by simp
    from "1.IH" [OF True sp refl rec len1] obtain more where
      ext: "pipes' = (pipes @ [(r, wr)]) @ more" and
      fr: "\<forall>j. Suc i \<le> j \<and> j < length pipes' \<longrightarrow>
              fds st1 (fst (pipes' ! j)) = None \<and> fds st1 (snd (pipes' ! j)) = None"
      by blast
    have at_i: "pipes' ! i = (r, wr)" using ext "1.prems"(2) by (simp add: nth_append)
    have sub: "\<And>d. fds st1 d = None \<Longrightarrow> fds st d = None"
      using f(4) by (auto split: if_splits)
    have "\<forall>j. i \<le> j \<and> j < length pipes' \<longrightarrow>
              fds st (fst (pipes' ! j)) = None \<and> fds st (snd (pipes' ! j)) = None"
    proof (intro allI impI)
      fix j assume j: "i \<le> j \<and> j < length pipes'"
      show "fds st (fst (pipes' ! j)) = None \<and> fds st (snd (pipes' ! j)) = None"
      proof (cases "j = i")
        case True
        with at_i f(1,2) show ?thesis by simp
      next
        case False
        with j fr sub show ?thesis by simp
      qed
    qed
    moreover from ext have "\<exists>more. pipes' = pipes @ more" by simp
    ultimately show ?thesis by blast
  qed
qed

lemma makePipes_fresh:
  assumes "makePipes w n st = Return pipes st'" and "j < length pipes"
  shows "fds st (fst (pipes ! j)) = None" and "fds st (snd (pipes ! j)) = None"
  using makePipes_loop_fresh [of w n 0 "[]" st pipes st'] assms
  by (simp_all add: makePipes_def)

lemma pipe_fds_distinct:
  assumes "distinct (map fst pipes @ map snd pipes)" and "i < length pipes" and "j < length pipes"
  shows "fst (pipes ! i) \<noteq> snd (pipes ! j)"
    and "i \<noteq> j \<Longrightarrow> fst (pipes ! i) \<noteq> fst (pipes ! j)"
    and "i \<noteq> j \<Longrightarrow> snd (pipes ! i) \<noteq> snd (pipes ! j)"
proof -
  from assms(1) have df: "distinct (map fst pipes)" and ds: "distinct (map snd pipes)"
    and dj: "set (map fst pipes) \<inter> set (map snd pipes) = {}"
    unfolding distinct_append by blast+
  have li: "i < length (map fst pipes)" "i < length (map snd pipes)"
    and lj: "j < length (map fst pipes)" "j < length (map snd pipes)"
    using assms(2,3) by simp_all
  have fi: "map fst pipes ! i = fst (pipes ! i)" and fj: "map fst pipes ! j = fst (pipes ! j)"
    and si: "map snd pipes ! i = snd (pipes ! i)" and sj: "map snd pipes ! j = snd (pipes ! j)"
    using assms(2,3) by (simp_all only: nth_map)
  have m1: "map fst pipes ! i \<in> set (map fst pipes)" using li(1) by (rule nth_mem)
  have m2: "map snd pipes ! j \<in> set (map snd pipes)" using lj(2) by (rule nth_mem)
  have "map fst pipes ! i \<noteq> map snd pipes ! j"
  proof
    assume eq: "map fst pipes ! i = map snd pipes ! j"
    from m2 have "map fst pipes ! i \<in> set (map snd pipes)" unfolding eq .
    with m1 have "map fst pipes ! i \<in> set (map fst pipes) \<inter> set (map snd pipes)"
      by (rule IntI)
    then show False unfolding dj by (rule emptyE)
  qed
  then show "fst (pipes ! i) \<noteq> snd (pipes ! j)" unfolding fi sj .
  have "(map fst pipes ! i = map fst pipes ! j) = (i = j)"
    using df li(1) lj(1) by (rule nth_eq_iff_index_eq)
  then show "i \<noteq> j \<Longrightarrow> fst (pipes ! i) \<noteq> fst (pipes ! j)" unfolding fi fj by blast
  have "(map snd pipes ! i = map snd pipes ! j) = (i = j)"
    using ds li(2) lj(2) by (rule nth_eq_iff_index_eq)
  then show "i \<noteq> j \<Longrightarrow> snd (pipes ! i) \<noteq> snd (pipes ! j)" unfolding si sj by blast
qed

lemma int_loop_bound: "(int i < int n - 1) = (Suc i < n)"
  by auto

lemma int_prev_index: "(int i \<noteq> int ind - 1) = (Suc i \<noteq> ind)"
  by auto

lemma closed_from_step:
  assumes "Suc i < n"
  shows "closed_from pipes n ind i =
           closed_from pipes n ind (Suc i) \<union>
           (if Suc i \<noteq> ind then {fst (pipes ! i)} else {}) \<union>
           (if i \<noteq> ind then {snd (pipes ! i)} else {})"
    (is "?L = ?R")
proof (rule set_eqI)
  fix x
  have split: "\<And>j. i \<le> j \<longleftrightarrow> j = i \<or> Suc i \<le> j" by auto
  have "x \<in> ?L \<longleftrightarrow>
          (\<exists>j. (j = i \<or> Suc i \<le> j) \<and> Suc j < n \<and> Suc j \<noteq> ind \<and> x = fst (pipes ! j)) \<or>
          (\<exists>j. (j = i \<or> Suc i \<le> j) \<and> Suc j < n \<and> j \<noteq> ind \<and> x = snd (pipes ! j))"
    unfolding closed_from_def using split by blast
  also have "\<dots> \<longleftrightarrow> x \<in> ?R"
    unfolding closed_from_def using assms by auto
  finally show "x \<in> ?L \<longleftrightarrow> x \<in> ?R" .
qed

lemma closed_from_end: "\<not> Suc i < n \<Longrightarrow> closed_from pipes n ind i = {}"
  by (auto simp: closed_from_def)

lemma closeUnneededPipes_loop_post:
  assumes d: "distinct (map fst pipes @ map snd pipes)" and len: "length pipes = n"
    and opn: "\<forall>x \<in> closed_from pipes n ind i. fds st x \<noteq> None \<and> \<not> close_fails w me x"
  shows "closeUnneededPipes_loop w me pipes n ind i st =
           Return () (st\<lparr>fds := (\<lambda>x. if x \<in> closed_from pipes n ind i then None else fds st x)\<rparr>)"
  using opn
proof (induction "n - i" arbitrary: i st)
  case 0
  then have "\<not> Suc i < n" by simp
  then show ?case
    by (subst closeUnneededPipes_loop.simps) (simp add: int_loop_bound closed_from_end)
next
  case (Suc k)
  show ?case
  proof (cases "Suc i < n")
    case False
    then show ?thesis
      by (subst closeUnneededPipes_loop.simps) (simp add: int_loop_bound closed_from_end)
  next
    case True
    let ?r = "fst (pipes ! i)" and ?wr = "snd (pipes ! i)"
    let ?C = "closed_from pipes n ind i" and ?C' = "closed_from pipes n ind (Suc i)"
    note step = closed_from_step [OF True, of pipes ind]
    have i_lt: "i < length pipes" using True len by simp
    have r_ne_wr: "?r \<noteq> ?wr" using pipe_fds_distinct(1) [OF d i_lt i_lt] .
    define st1 where "st1 = (if Suc i \<noteq> ind then st\<lparr>fds := (fds st)(?r := None)\<rparr> else st)"
    define st2 where "st2 = (if i \<noteq> ind then st1\<lparr>fds := (fds st1)(?wr := None)\<rparr> else st1)"
    have c1: "(if int i \<noteq> int ind - 1 then sys_close w me ?r st else Some st) = Some st1"
    proof (cases "Suc i \<noteq> ind")
      case True
      then have "?r \<in> ?C" using step by simp
      with Suc.prems True show ?thesis by (simp add: int_prev_index sys_close_def st1_def)
    next
      case False
      then show ?thesis by (simp add: int_prev_index st1_def)
    qed
    have c2: "(if i \<noteq> ind then sys_close w me ?wr st1 else Some st1) = Some st2"
    proof (cases "i \<noteq> ind")
      case True
      then have "?wr \<in> ?C" using step by simp
      with Suc.prems True r_ne_wr show ?thesis by (simp add: sys_close_def st2_def st1_def)
    next
      case False
      then show ?thesis by (simp add: st2_def)
    qed
    have later: "\<And>x. x \<in> ?C' \<Longrightarrow> x \<noteq> ?r \<and> x \<noteq> ?wr"
    proof -
      fix x assume "x \<in> ?C'"
      then obtain j where j: "Suc i \<le> j" "Suc j < n" and x: "x = fst (pipes ! j) \<or> x = snd (pipes ! j)"
        by (auto simp: closed_from_def)
      from j len have jl: "j < length pipes" and ne: "j \<noteq> i" by simp_all
      from x show "x \<noteq> ?r \<and> x \<noteq> ?wr"
        using pipe_fds_distinct [OF d jl i_lt] pipe_fds_distinct [OF d i_lt jl] ne by auto
    qed
    have fds2: "\<And>x. fds st2 x = (if (Suc i \<noteq> ind \<and> x = ?r) \<or> (i \<noteq> ind \<and> x = ?wr) then None else fds st x)"
      by (simp add: st2_def st1_def)
    have "\<forall>x \<in> ?C'. fds st2 x \<noteq> None \<and> \<not> close_fails w me x"
    proof
      fix x assume x: "x \<in> ?C'"
      then have "x \<in> ?C" using step by simp
      with Suc.prems later [OF x] show "fds st2 x \<noteq> None \<and> \<not> close_fails w me x"
        by (simp add: fds2)
    qed
    moreover have "k = n - Suc i" using Suc.hyps(2) by simp
    ultimately have IH: "closeUnneededPipes_loop w me pipes n ind (Suc i) st2 =
        Return () (st2\<lparr>fds := (\<lambda>x. if x \<in> ?C' then None else fds st2 x)\<rparr>)"
      by (rule Suc.hyps(1) [rotated])
    have "(\<lambda>x. if x \<in> ?C' then None else fds st2 x) = (\<lambda>x. if x \<in> ?C then None else fds st x)"
    proof
      fix x
      show "(if x \<in> ?C' then None else fds st2 x) = (if x \<in> ?C then None else fds st x)"
        unfolding step fds2 by auto
    qed
    moreover have "st2\<lparr>fds := (\<lambda>x. if x \<in> ?C then None else fds st x)\<rparr>
                     = st\<lparr>fds := (\<lambda>x. if x \<in> ?C then None else fds st x)\<rparr>"
      by (simp add: st2_def st1_def)
    ultimately have "closeUnneededPipes_loop w me pipes n ind (Suc i) st2 =
        Return () (st\<lparr>fds := (\<lambda>x. if x \<in> ?C then None else fds st x)\<rparr>)"
      using IH by simp
    with True c1 c2 show ?thesis
      by (subst closeUnneededPipes_loop.simps) (simp add: int_loop_bound)
  qed
qed


lemma closeUnneededPipes_loop_cases:
  "(\<exists>st'. closeUnneededPipes_loop w me pipes n ind i st = Return () st') \<or>
   (\<exists>st'. closeUnneededPipes_loop w me pipes n ind i st = Exit 127 st')"
proof (induction w me pipes n ind i st rule: closeUnneededPipes_loop.induct)
  case (1 w me pipes n ind i st)
  show ?case
  proof (cases "int i < int n - 1")
    case False
    then show ?thesis by (subst closeUnneededPipes_loop.simps) simp
  next
    case True
    let ?c1 = "if int i \<noteq> int ind - 1 then sys_close w me (fst (pipes ! i)) st else Some st"
    show ?thesis
    proof (cases ?c1)
      case None
      with True show ?thesis
        by (simp add: closeUnneededPipes_loop.simps [of w me pipes n ind i st])
    next
      case (Some st1)
      let ?c2 = "if i \<noteq> ind then sys_close w me (snd (pipes ! i)) st1 else Some st1"
      show ?thesis
      proof (cases ?c2)
        case None
        with True Some show ?thesis
          by (simp add: closeUnneededPipes_loop.simps [of w me pipes n ind i st])
      next
        case st2: (Some st2)
        from "1.IH" [OF True Some st2] True Some st2 show ?thesis
          by (simp add: closeUnneededPipes_loop.simps [of w me pipes n ind i st])
      qed
    qed
  qed
qed

lemma runChild_after_close:
  assumes cu: "closeUnneededPipes w (Child i) pipes (length procs) i st = Return () st1"
    and d1: "(if i \<noteq> 0 then sys_dup2 w (Child i) (fst (pipes ! (i - 1))) STDIN_FILENO st1
              else Some st1) = Some st2"
    and d2: "(if int i \<noteq> int (length procs) - 1
              then sys_dup2 w (Child i) (snd (pipes ! i)) STDOUT_FILENO st2
              else Some st2) = Some st3"
    and pr: "procs ! i = name # rest"
  shows "runChild w procs pipes i st =
           (if exec_fails w i
            then Return () (eprint (''jsh error: Command not found: '' @ c_str name @ [NL]) st3)
            else Exec (procs ! i) st3)"
  unfolding runChild_def cu bind.simps d1 option.case d2 pr list.case ..

lemma child_ends:
  assumes "procs ! i \<noteq> []"
  shows "(\<exists>c st'. child w procs pipes i st = Exit c st') \<or>
         (\<exists>st'. child w procs pipes i st = Exec (procs ! i) st')"
proof -
  obtain name rest where pr: "procs ! i = name # rest" using assms by (cases "procs ! i") auto
  from closeUnneededPipes_loop_cases [of w "Child i" pipes "length procs" i 0 st]
  show ?thesis
  proof
    assume "\<exists>st'. closeUnneededPipes_loop w (Child i) pipes (length procs) i 0 st = Exit 127 st'"
    then show ?thesis by (auto simp: child_def runChild_def closeUnneededPipes_def)
  next
    assume "\<exists>st'. closeUnneededPipes_loop w (Child i) pipes (length procs) i 0 st = Return () st'"
    then obtain st1 where
      cu: "closeUnneededPipes w (Child i) pipes (length procs) i st = Return () st1"
      by (auto simp: closeUnneededPipes_def)
    let ?d1 = "if i \<noteq> 0 then sys_dup2 w (Child i) (fst (pipes ! (i - 1))) STDIN_FILENO st1
               else Some st1"
    show ?thesis
    proof (cases ?d1)
      case None
      have "runChild w procs pipes i st = Exit 127 (eprint ''IO Duplication Error'' st1)"
        unfolding runChild_def cu bind.simps None option.case ..
      then show ?thesis by (simp add: child_def)
    next
      case (Some st2)
      let ?d2 = "if int i \<noteq> int (length procs) - 1
                 then sys_dup2 w (Child i) (snd (pipes ! i)) STDOUT_FILENO st2 else Some st2"
      show ?thesis
      proof (cases ?d2)
        case None
        have "runChild w procs pipes i st = Exit 127 (eprint ''IO Duplication Error'' st2)"
          unfolding runChild_def cu bind.simps Some option.case None ..
        then show ?thesis by (simp add: child_def)
      next
        case st3: (Some st3)
        from runChild_after_close [OF cu Some st3 pr] show ?thesis
          by (simp add: child_def)
      qed
    qed
  qed
qed

lemma wait_status_child:
  assumes "procs ! i \<noteq> []"
  shows "\<exists>s. wait_status w i (child w procs pipes i st) = Some s"
  using child_ends [OF assms, of w pipes st] by (auto simp: wait_status_def)

lemma fork_loop_returns:
  assumes "\<forall>j. i \<le> j \<and> j < n \<longrightarrow> \<not> fork_fails w j"
  shows "fork_loop w n i pids st = Return (pids @ map (child_pid w) [i..<n]) st"
  using assms
proof (induction "n - i" arbitrary: i pids)
  case 0
  then show ?case by (subst fork_loop.simps) simp
next
  case (Suc k)
  then have lt: "i < n" by simp
  have "fork_loop w n (Suc i) (pids @ [child_pid w i]) st =
          Return ((pids @ [child_pid w i]) @ map (child_pid w) [Suc i..<n]) st"
    using Suc.hyps(2) Suc.prems by (intro Suc.hyps(1)) auto
  moreover have "[i..<n] = i # [Suc i..<n]" using lt by (simp add: upt_conv_Cons)
  moreover have "\<not> fork_fails w i" using Suc.prems lt by simp
  ultimately show ?case using lt
    by (subst fork_loop.simps) (simp add: sys_fork_def)
qed

lemma child_pids_distinct: "distinct (map (child_pid w) [0..<n])"
  by (simp add: distinct_map inj_on_def child_pid_def)

lemma map_of_map_filter_Some:
  assumes "x \<in> set xs" and "f x = Some (k, v)"
    and "\<forall>y \<in> set xs. \<forall>v'. f y = Some (k, v') \<longrightarrow> v' = v"
  shows "map_of (List.map_filter f xs) k = Some v"
  using assms
proof (induction xs)
  case Nil
  then show ?case by simp
next
  case (Cons a xs)
  have uniq: "\<forall>y \<in> set xs. \<forall>v'. f y = Some (k, v') \<longrightarrow> v' = v"
    using Cons.prems(3) by (meson list.set_intros(2))
  show ?case
  proof (cases "f a")
    case None
    with Cons.prems(1,2) have "x \<in> set xs" by auto
    then have "map_of (List.map_filter f xs) k = Some v"
      using Cons.prems(2) uniq by (rule Cons.IH)
    with None show ?thesis by (simp add: map_filter_simps)
  next
    case (Some p)
    obtain k' v' where p: "p = (k', v')" by (cases p)
    show ?thesis
    proof (cases "k' = k")
      case True
      have "a \<in> set (a # xs)" by simp
      with Some p True Cons.prems(3) have "v' = v" by blast
      with Some p True show ?thesis by (simp add: map_filter_simps)
    next
      case False
      with Some p Cons.prems(2) have "x \<noteq> a" by auto
      with Cons.prems(1) have "x \<in> set xs" by simp
      then have "map_of (List.map_filter f xs) k = Some v"
        using Cons.prems(2) uniq by (rule Cons.IH)
      with Some p False show ?thesis by (simp add: map_filter_simps)
    qed
  qed
qed

lemma ended_children_lookup:
  assumes j: "j < length pids" and d: "distinct pids" and fin: "j \<in> set (finish_order w)"
    and ws: "wait_status w j (child w procs pipes j st) = Some s"
  shows "map_of (ended_children w procs pipes st pids) (pids ! j) = Some s"
  unfolding ended_children_def
proof (rule map_of_map_filter_Some [OF fin])
  show "(if j < length pids
         then map_option (\<lambda>s. (pids ! j, s)) (wait_status w j (child w procs pipes j st))
         else None) = Some (pids ! j, s)"
    using j ws by simp
next
  show "\<forall>y \<in> set (finish_order w). \<forall>v'.
          (if y < length pids
           then map_option (\<lambda>s. (pids ! y, s)) (wait_status w y (child w procs pipes y st))
           else None) = Some (pids ! j, v') \<longrightarrow> v' = s"
  proof (intro ballI allI impI)
    fix y v'
    assume "(if y < length pids
          then map_option (\<lambda>s. (pids ! y, s)) (wait_status w y (child w procs pipes y st))
          else None) = Some (pids ! j, v')"
    then have y: "y < length pids" and eq: "pids ! y = pids ! j"
      and v': "wait_status w y (child w procs pipes y st) = Some v'"
      by (auto split: if_splits)
    from d y j eq have "y = j" by (simp add: nth_eq_iff_index_eq)
    with v' ws show "v' = s" by simp
  qed
qed

lemma waitOnProcesses_loop_returns:
  assumes d: "distinct (map fst pipes @ map snd pipes)" and len: "length pipes = n"
    and noc: "\<forall>x. \<not> close_fails w Shell x" and now: "\<forall>p. \<not> wait_fails w p"
    and lt: "i < n"
    and opn: "\<forall>j. i \<le> j \<and> j < n \<longrightarrow>
                fds st (fst (pipes ! j)) \<noteq> None \<and> fds st (snd (pipes ! j)) \<noteq> None"
    and ws: "\<forall>j. i \<le> j \<and> j < n \<longrightarrow> map_of ended (pids ! j) = Some (ss j)"
  shows "\<exists>st'. waitOnProcesses_loop w ended pipes pids n i status st =
                 Return (WEXITSTATUS (ss (n - 1))) st' \<and>
               out st' = out st \<and> err st' = err st"
  using lt opn ws
proof (induction "n - i" arbitrary: i status st)
  case 0
  then show ?case by simp
next
  case (Suc k)
  let ?r = "fst (pipes ! i)" and ?wr = "snd (pipes ! i)"
  have i_lt: "i < length pipes" using Suc.prems(1) len by simp
  have r_ne_wr: "?r \<noteq> ?wr" using pipe_fds_distinct(1) [OF d i_lt i_lt] .
  define st1 where "st1 = st\<lparr>fds := (fds st)(?r := None)\<rparr>"
  define st2 where "st2 = st1\<lparr>fds := (fds st1)(?wr := None)\<rparr>"
  have o: "fds st ?r \<noteq> None" "fds st ?wr \<noteq> None" using Suc.prems(1,2) by auto
  have c1: "sys_close w Shell ?r st = Some st1"
    using o noc by (simp add: sys_close_def st1_def)
  have c2: "sys_close w Shell ?wr st1 = Some st2"
    using o noc r_ne_wr by (simp add: sys_close_def st2_def st1_def)
  have wp: "sys_waitpid w ended (pids ! i) = WaitStatus (ss i)"
    using now Suc.prems(1,3) by (simp add: sys_waitpid_def)
  have unfold: "waitOnProcesses_loop w ended pipes pids n i status st =
                waitOnProcesses_loop w ended pipes pids n (Suc i) (Some (ss i)) st2"
    using Suc.prems(1) c1 c2 wp by (subst waitOnProcesses_loop.simps) simp
  have io: "out st2 = out st" "err st2 = err st" by (simp_all add: st2_def st1_def)
  show ?case
  proof (cases "Suc i < n")
    case False
    with Suc.prems(1) have last: "i = n - 1" and "\<not> Suc i < n" by simp_all
    then have "waitOnProcesses_loop w ended pipes pids n (Suc i) (Some (ss i)) st2 =
                 Return (WEXITSTATUS (ss (n - 1))) st2"
      by (subst waitOnProcesses_loop.simps) simp
    with unfold io show ?thesis by simp
  next
    case True
    have opn2: "\<forall>j. Suc i \<le> j \<and> j < n \<longrightarrow>
                fds st2 (fst (pipes ! j)) \<noteq> None \<and> fds st2 (snd (pipes ! j)) \<noteq> None"
    proof (intro allI impI)
      fix j assume j: "Suc i \<le> j \<and> j < n"
      then have jl: "j < length pipes" and ne: "j \<noteq> i" using len by simp_all
      have "fst (pipes ! j) \<noteq> ?r" "fst (pipes ! j) \<noteq> ?wr"
           "snd (pipes ! j) \<noteq> ?r" "snd (pipes ! j) \<noteq> ?wr"
        using pipe_fds_distinct [OF d jl i_lt] pipe_fds_distinct [OF d i_lt jl] ne by auto
      moreover from j Suc.prems(2) have "fds st (fst (pipes ! j)) \<noteq> None"
        "fds st (snd (pipes ! j)) \<noteq> None" by auto
      ultimately show "fds st2 (fst (pipes ! j)) \<noteq> None \<and> fds st2 (snd (pipes ! j)) \<noteq> None"
        by (simp add: st2_def st1_def)
    qed
    have ws2: "\<forall>j. Suc i \<le> j \<and> j < n \<longrightarrow> map_of ended (pids ! j) = Some (ss j)"
      using Suc.prems(3) by auto
    have k: "k = n - Suc i" using Suc.hyps(2) by simp
    from Suc.hyps(1) [OF k True opn2 ws2, of "Some (ss i)"] unfold io
    show ?thesis by simp
  qed
qed


lemmas exec_eval = makePipes_def makePipes_loop.simps sys_pipe_def lowest_free_def
  quiet_world_def fresh_shell_def EXIT_FAILURE_def eprint_def print_def
  closeUnneededPipes_def closeUnneededPipes_loop.simps sys_close_def sys_dup2_def
  runChild_def child_def wait_status_def ended_children_def fork_loop.simps sys_fork_def
  child_pid_def sys_waitpid_def waitOnProcesses_def waitOnProcesses_loop.simps execute_def
  WEXITSTATUS_def W_EXITCODE_def STDIN_FILENO_def STDOUT_FILENO_def map_filter_simps
  NL_def NUL_def c_str_def upt_conv_Cons eval_nat_numeral

text \<open>
  What execute does when no call of the shell itself fails and every child ends: it
  returns, having printed the exit status of the child of the last stage and having
  written nothing to standard error. Nothing is assumed of the calls that the
  children make.
\<close>

lemma execute_returns:
  assumes ne: "procs \<noteq> []" and stages: "[] \<notin> set procs"
    and mk: "makePipes w (length procs) st = Return pipes st1"
    and nf: "\<forall>i < length procs. \<not> fork_fails w i"
    and noc: "\<forall>x. \<not> close_fails w Shell x" and now: "\<forall>p. \<not> wait_fails w p"
    and fin: "\<forall>i < length procs. i \<in> set (finish_order w)"
    and last: "wait_status w (length procs - 1)
                 (child w procs pipes (length procs - 1) st1) = Some s"
  shows "\<exists>st'. execute w procs st = Return () st' \<and>
               out st' = out st @ [Status (WEXITSTATUS s)] \<and> err st' = err st"
proof -
  let ?n = "length procs"
  let ?pids = "map (child_pid w) [0..<?n]"
  let ?ended = "ended_children w procs pipes st1 ?pids"
  define ss where "ss j = the (wait_status w j (child w procs pipes j st1))" for j
  from ne have pos: "0 < ?n" by simp
  note post = makePipes_post [OF mk]
  from post have len: "length pipes = ?n" and po: "pipes_open (pipes_made st) pipes (fds st1)"
    and o1: "out st1 = out st" and e1: "err st1 = err st" by simp_all
  from po have d: "distinct (map fst pipes @ map snd pipes)" by (simp add: pipes_open_def)
  have fk: "fork_loop w ?n 0 [] st1 = Return ?pids st1"
    using fork_loop_returns [of 0 ?n w "[]" st1] nf by simp
  have opn: "\<forall>j. 0 \<le> j \<and> j < ?n \<longrightarrow>
               fds st1 (fst (pipes ! j)) \<noteq> None \<and> fds st1 (snd (pipes ! j)) \<noteq> None"
    using po len by (simp add: pipes_open_def)
  have ws: "\<forall>j. 0 \<le> j \<and> j < ?n \<longrightarrow> map_of ?ended (?pids ! j) = Some (ss j)"
  proof (intro allI impI)
    fix j assume j: "0 \<le> j \<and> j < ?n"
    then have "procs ! j \<in> set procs" by simp
    with stages have "procs ! j \<noteq> []" by metis
    from wait_status_child [OF this, of w pipes st1]
    have s: "wait_status w j (child w procs pipes j st1) = Some (ss j)"
      by (auto simp: ss_def)
    have jl: "j < length ?pids" using j by simp
    have jf: "j \<in> set (finish_order w)" using fin j by simp
    show "map_of ?ended (?pids ! j) = Some (ss j)"
      by (rule ended_children_lookup [OF jl child_pids_distinct jf s])
  qed
  from waitOnProcesses_loop_returns [OF d len noc now pos opn ws, of None]
  obtain st' where
    wt: "waitOnProcesses w ?ended pipes ?pids ?n st1 = Return (WEXITSTATUS (ss (?n - 1))) st'"
    and o2: "out st' = out st1" and e2: "err st' = err st1"
    by (auto simp: waitOnProcesses_def)
  from last have "ss (?n - 1) = s" by (simp add: ss_def)
  with mk fk wt o1 o2 e1 e2 show ?thesis
    by (simp add: execute_def print_def)
qed

text \<open>
  C1. For a pipeline of N >= 1 stages that execute runs without a failing call in the
  shell, the status printed is the exit status (WEXITSTATUS of the wait status) of the
  child of the last stage, N - 1: whatever the order in which the children end
  (\<open>finish_order\<close>), and whatever the wait statuses of the other children.
\<close>

theorem reported_status_is_last_stage:
  assumes ne: "procs \<noteq> []" and stages: "[] \<notin> set procs"
    and mk: "makePipes w (length procs) st = Return pipes st1"
    and nf: "\<forall>i < length procs. \<not> fork_fails w i"
    and noc: "\<forall>x. \<not> close_fails w Shell x" and now: "\<forall>p. \<not> wait_fails w p"
    and fin: "\<forall>i < length procs. i \<in> set (finish_order w)"
    and last: "wait_status w (length procs - 1)
                 (child w procs pipes (length procs - 1) st1) = Some s"
  shows "\<exists>st'. execute w procs st = Return () st' \<and>
               out st' = out st @ [Status (WEXITSTATUS s)]"
  using execute_returns [OF ne stages mk nf noc now fin last] by blast

theorem reported_status_is_last_stage_witness:
  "\<exists>st'. execute quiet_world [[''printf'', ''foo''], [''tr'', ''a-z'', ''A-Z''], [''rev'']]
            fresh_shell = Return () st' \<and>
         out st' = out fresh_shell @ [Status (WEXITSTATUS (W_EXITCODE 7))]"
proof -
  let ?procs = "[[''printf'', ''foo''], [''tr'', ''a-z'', ''A-Z''], [''rev'']]"
  let ?pipes = "[(3, 4), (5, 6), (7, 8)] :: (fd \<times> fd) list"
  let ?st1 = "fresh_shell\<lparr>fds := (fds fresh_shell)
                 (3 \<mapsto> PipeEnd 0 ReadEnd, 4 \<mapsto> PipeEnd 0 WriteEnd,
                  5 \<mapsto> PipeEnd 1 ReadEnd, 6 \<mapsto> PipeEnd 1 WriteEnd,
                  7 \<mapsto> PipeEnd 2 ReadEnd, 8 \<mapsto> PipeEnd 2 WriteEnd),
               pipes_made := 3\<rparr>"
  have h1: "?procs \<noteq> []" by simp
  have h2: "[] \<notin> set ?procs" by simp
  have h3: "makePipes quiet_world (length ?procs) fresh_shell = Return ?pipes ?st1"
    by (simp add: exec_eval)
  have h4: "\<forall>i < length ?procs. \<not> fork_fails quiet_world i" by (simp add: quiet_world_def)
  have h5: "\<forall>x. \<not> close_fails quiet_world Shell x" by (simp add: quiet_world_def)
  have h6: "\<forall>p. \<not> wait_fails quiet_world p" by (simp add: quiet_world_def)
  have h7: "\<forall>i < length ?procs. i \<in> set (finish_order quiet_world)"
    by (auto simp: quiet_world_def less_Suc_eq)
  have h8: "wait_status quiet_world (length ?procs - 1)
              (child quiet_world ?procs ?pipes (length ?procs - 1) ?st1) = Some (W_EXITCODE 7)"
    by (simp add: exec_eval)
  from reported_status_is_last_stage [OF h1 h2 h3 h4 h5 h6 h7 h8] show ?thesis .
qed


lemma closed_from_pipe_fd:
  assumes "x \<in> closed_from pipes n ind i"
  shows "\<exists>j. j < n \<and> (x = fst (pipes ! j) \<or> x = snd (pipes ! j))"
  using assms unfolding closed_from_def by (auto intro: Suc_lessD)

lemma kept_read_end:
  assumes d: "distinct (map fst pipes @ map snd pipes)" and len: "length pipes = n"
    and i: "0 < i" "i \<le> n"
  shows "fst (pipes ! (i - 1)) \<notin> closed_from pipes n i k"
proof
  assume "fst (pipes ! (i - 1)) \<in> closed_from pipes n i k"
  then obtain j where j: "Suc j < n" and
    c: "(Suc j \<noteq> i \<and> fst (pipes ! (i - 1)) = fst (pipes ! j)) \<or>
        fst (pipes ! (i - 1)) = snd (pipes ! j)"
    unfolding closed_from_def by auto
  have il: "i - 1 < length pipes" and jl: "j < length pipes" using i j len by simp_all
  from c show False
  proof
    assume a: "Suc j \<noteq> i \<and> fst (pipes ! (i - 1)) = fst (pipes ! j)"
    with i have "i - 1 \<noteq> j" by auto
    with pipe_fds_distinct(2) [OF d il jl] a show False by simp
  next
    assume "fst (pipes ! (i - 1)) = snd (pipes ! j)"
    with pipe_fds_distinct(1) [OF d il jl] show False by simp
  qed
qed

lemma kept_write_end:
  assumes d: "distinct (map fst pipes @ map snd pipes)" and len: "length pipes = n"
    and i: "i < n"
  shows "snd (pipes ! i) \<notin> closed_from pipes n i k"
proof
  assume "snd (pipes ! i) \<in> closed_from pipes n i k"
  then obtain j where j: "Suc j < n" and
    c: "snd (pipes ! i) = fst (pipes ! j) \<or> (j \<noteq> i \<and> snd (pipes ! i) = snd (pipes ! j))"
    unfolding closed_from_def by auto
  have il: "i < length pipes" and jl: "j < length pipes" using i j len by simp_all
  from c show False
  proof
    assume "snd (pipes ! i) = fst (pipes ! j)"
    with pipe_fds_distinct(1) [OF d jl il] show False by simp
  next
    assume a: "j \<noteq> i \<and> snd (pipes ! i) = snd (pipes ! j)"
    with pipe_fds_distinct(3) [OF d il jl] show False by auto
  qed
qed

lemma runChild_reaches_execvp:
  assumes po: "pipes_open k0 pipes (fds st1)" and len: "length pipes = length procs"
    and i: "i < length procs" and pr: "procs ! i = name # rest"
    and noc: "\<forall>x. \<not> close_fails w (Child i) x"
    and nod: "\<forall>a b. \<not> dup2_fails w (Child i) a b"
  shows "runChild w procs pipes i st1 =
           (if exec_fails w i
            then Return () (eprint (''jsh error: Command not found: '' @ c_str name @ [NL])
                              (st1\<lparr>fds := table_at_exec pipes (length procs) i (fds st1)\<rparr>))
            else Exec (procs ! i) (st1\<lparr>fds := table_at_exec pipes (length procs) i (fds st1)\<rparr>))"
proof -
  let ?n = "length procs"
  let ?C = "closed_from pipes ?n i 0"
  let ?r = "fst (pipes ! (i - 1))" and ?wr = "snd (pipes ! i)"
  define t1 where "t1 = (\<lambda>x. if x \<in> ?C then None else fds st1 x)"
  define t2 where "t2 = (if i \<noteq> 0 then t1(STDIN_FILENO := t1 ?r) else t1)"
  define t3 where "t3 = (if Suc i \<noteq> ?n then t2(STDOUT_FILENO := t2 ?wr) else t2)"
  from po have d: "distinct (map fst pipes @ map snd pipes)" by (simp add: pipes_open_def)
  have opn: "\<And>j. j < ?n \<Longrightarrow> fds st1 (fst (pipes ! j)) \<noteq> None \<and> fds st1 (snd (pipes ! j)) \<noteq> None"
    using po len by (simp add: pipes_open_def)
  have "\<forall>x \<in> ?C. fds st1 x \<noteq> None \<and> \<not> close_fails w (Child i) x"
  proof
    fix x assume "x \<in> ?C"
    from closed_from_pipe_fd [OF this] opn noc
    show "fds st1 x \<noteq> None \<and> \<not> close_fails w (Child i) x" by auto
  qed
  from closeUnneededPipes_loop_post [OF d len this]
  have cu: "closeUnneededPipes w (Child i) pipes ?n i st1 = Return () (st1\<lparr>fds := t1\<rparr>)"
    by (simp add: closeUnneededPipes_def t1_def)
  have w_open: "t1 ?wr \<noteq> None"
    using kept_write_end [OF d len i] opn [OF i] by (simp add: t1_def)
  have r_open: "t1 ?r \<noteq> None" if "i \<noteq> 0"
  proof -
    from that i have "0 < i" "i \<le> ?n" "i - 1 < ?n" by simp_all
    with kept_read_end [OF d len, of i 0] opn [of "i - 1"] show ?thesis
      by (simp add: t1_def)
  qed
  have d1: "(if i \<noteq> 0
             then sys_dup2 w (Child i) ?r STDIN_FILENO (st1\<lparr>fds := t1\<rparr>)
             else Some (st1\<lparr>fds := t1\<rparr>)) = Some (st1\<lparr>fds := t2\<rparr>)"
  proof (cases "i = 0")
    case True
    then show ?thesis by (simp add: t2_def)
  next
    case False
    with r_open nod show ?thesis by (simp add: sys_dup2_def t2_def)
  qed
  have t2_open: "t2 ?wr \<noteq> None"
  proof (cases "i = 0")
    case True
    with w_open show ?thesis by (simp add: t2_def)
  next
    case False
    with w_open r_open show ?thesis by (simp add: t2_def)
  qed
  have d2: "(if int i \<noteq> int ?n - 1
             then sys_dup2 w (Child i) ?wr STDOUT_FILENO (st1\<lparr>fds := t2\<rparr>)
             else Some (st1\<lparr>fds := t2\<rparr>)) = Some (st1\<lparr>fds := t3\<rparr>)"
  proof (cases "Suc i = ?n")
    case True
    then have "int i = int ?n - 1" by auto
    with True show ?thesis by (simp add: t3_def)
  next
    case False
    then have "int i \<noteq> int ?n - 1" by auto
    with False t2_open nod show ?thesis by (simp add: sys_dup2_def t3_def)
  qed
  have "table_at_exec pipes ?n i (fds st1) = t3"
    by (simp add: table_at_exec_def Let_def t3_def t2_def t1_def)
  with runChild_after_close [OF cu d1 d2 pr] show ?thesis by simp
qed





text \<open>
  Where execvp fails in the child of stage \<open>i\<close> (the descriptor calls before it having
  succeeded), that child writes the "Command not found" diagnostic to standard error
  and ends with \<open>exit(127)\<close>.
\<close>

lemma exec_failure_ends_child:
  assumes mk: "makePipes w (length procs) st = Return pipes st1"
    and i: "i < length procs" and pr: "procs ! i = name # rest"
    and fails: "exec_fails w i"
    and noc: "\<forall>x. \<not> close_fails w (Child i) x"
    and nod: "\<forall>a b. \<not> dup2_fails w (Child i) a b"
  shows "child w procs pipes i st1 =
           Exit 127 (eprint (''jsh error: Command not found: '' @ c_str name @ [NL])
                       (st1\<lparr>fds := table_at_exec pipes (length procs) i (fds st1)\<rparr>))"
proof -
  note post = makePipes_post [OF mk]
  from post have len: "length pipes = length procs"
    and po: "pipes_open (pipes_made st) pipes (fds st1)" by simp_all
  have "runChild w procs pipes i st1 =
          Return () (eprint (''jsh error: Command not found: '' @ c_str name @ [NL])
                       (st1\<lparr>fds := table_at_exec pipes (length procs) i (fds st1)\<rparr>))"
    using runChild_reaches_execvp [OF po len i pr noc nod] fails by simp
  then show ?thesis by (simp add: child_def)
qed


text \<open>
  C7, as the spec states it, fails: in \<open>ls | wc\<close>, when dup2 fails in the child of
  stage 1, that child writes the diagnostic and exits with status 127; the shell
  writes no diagnostic, is not terminated and reports the status 127 of the child.
\<close>

theorem child_dup2_failure_spares_the_shell:
  "(\<exists>st'. child (quiet_world\<lparr>dup2_fails := (\<lambda>me a b. me = Child 1)\<rparr>)
            [[''ls''], [''wc'']] [(3, 4), (5, 6)] 1
            (fresh_shell\<lparr>fds := (fds fresh_shell)
                 (3 \<mapsto> PipeEnd 0 ReadEnd, 4 \<mapsto> PipeEnd 0 WriteEnd,
                  5 \<mapsto> PipeEnd 1 ReadEnd, 6 \<mapsto> PipeEnd 1 WriteEnd),
               pipes_made := 2\<rparr>) = Exit 127 st' \<and>
          err st' = [''IO Duplication Error'']) \<and>
   (\<exists>st'. execute (quiet_world\<lparr>dup2_fails := (\<lambda>me a b. me = Child 1)\<rparr>)
            [[''ls''], [''wc'']] fresh_shell = Return () st' \<and>
          out st' = [Status 127] \<and> err st' = [])"
proof -
  have "\<exists>st'. child (quiet_world\<lparr>dup2_fails := (\<lambda>me a b. me = Child 1)\<rparr>)
            [[''ls''], [''wc'']] [(3, 4), (5, 6)] 1
            (fresh_shell\<lparr>fds := (fds fresh_shell)
                 (3 \<mapsto> PipeEnd 0 ReadEnd, 4 \<mapsto> PipeEnd 0 WriteEnd,
                  5 \<mapsto> PipeEnd 1 ReadEnd, 6 \<mapsto> PipeEnd 1 WriteEnd),
               pipes_made := 2\<rparr>) = Exit 127 st' \<and>
          err st' = [''IO Duplication Error'']"
    by (simp add: exec_eval)
  moreover have "\<exists>st'. execute (quiet_world\<lparr>dup2_fails := (\<lambda>me a b. me = Child 1)\<rparr>)
            [[''ls''], [''wc'']] fresh_shell = Return () st' \<and>
          out st' = [Status 127] \<and> err st' = []"
    by (simp add: exec_eval)
  ultimately show ?thesis by blast
qed

text \<open>
  C7, amended. In the shell, a failure of pipe, of fork, of close or of waitpid, at
  whatever iteration of the loop that makes the call, ends the shell process with a
  diagnostic and the status \<open>EXIT_FAILURE\<close>, and execute hands that end on. In the child
  of a stage, a failure of close (in closeUnneededPipes) or of dup2 (in runChild) ends
  that child with a diagnostic and the status 127, and the end of closeUnneededPipes
  is the end of the child. The shell process is not terminated by it: when the child
  of any stage \<open>ind\<close> has ended with \<open>exit(127)\<close> and no call of the shell itself
  fails, execute returns in the shell, which has written no diagnostic and has
  reported the exit status of the child of the last stage.
\<close>

theorem resource_failure_ends_the_process:
  "(i < n \<and> sys_pipe w st = None \<longrightarrow>
      makePipes_loop w n i pipes st = Exit EXIT_FAILURE (eprint ''Pipe Error'' st)) \<and>
   (i < n \<and> sys_fork w i = None \<longrightarrow>
      fork_loop w n i pids st = Exit EXIT_FAILURE (eprint ''Fork Error'' st)) \<and>
   (i < n \<and> sys_close w Shell (fst (pipes ! i)) st = None \<longrightarrow>
      waitOnProcesses_loop w ended pipes pids n i status st =
        Exit EXIT_FAILURE (eprint ''Error closing file descriptor'' st)) \<and>
   (i < n \<and> sys_close w Shell (fst (pipes ! i)) st = Some sta \<and>
    sys_close w Shell (snd (pipes ! i)) sta = None \<longrightarrow>
      waitOnProcesses_loop w ended pipes pids n i status st =
        Exit EXIT_FAILURE (eprint ''Error closing file descriptor'' sta)) \<and>
   (i < n \<and> sys_close w Shell (fst (pipes ! i)) st = Some sta \<and>
    sys_close w Shell (snd (pipes ! i)) sta = Some stb \<and>
    sys_waitpid w ended (pids ! i) = WaitError \<longrightarrow>
      waitOnProcesses_loop w ended pipes pids n i status st =
        Exit EXIT_FAILURE (eprint ''Error waiting for child process to run'' stb)) \<and>
   (makePipes w (length procs) st = Exit c st' \<longrightarrow> execute w procs st = Exit c st') \<and>
   (makePipes w (length procs) st = Return pipes sta \<and>
    fork_loop w (length procs) 0 [] sta = Exit c st' \<longrightarrow> execute w procs st = Exit c st') \<and>
   (makePipes w (length procs) st = Return pipes sta \<and>
    fork_loop w (length procs) 0 [] sta = Return pids stb \<and>
    waitOnProcesses w (ended_children w procs pipes sta pids) pipes pids (length procs) stb
      = Exit c st' \<longrightarrow> execute w procs st = Exit c st') \<and>
   (Suc i < n \<and> Suc i \<noteq> ind \<and> sys_close w (Child ind) (fst (pipes ! i)) st = None \<longrightarrow>
      closeUnneededPipes_loop w (Child ind) pipes n ind i st =
        Exit 127 (eprint (''Error closing file descriptor'' @ [NL]) st)) \<and>
   (Suc i < n \<and> i \<noteq> ind \<and>
    (if Suc i \<noteq> ind then sys_close w (Child ind) (fst (pipes ! i)) st else Some st) = Some sta \<and>
    sys_close w (Child ind) (snd (pipes ! i)) sta = None \<longrightarrow>
      closeUnneededPipes_loop w (Child ind) pipes n ind i st =
        Exit 127 (eprint (''Error closing file descriptor'' @ [NL]) sta)) \<and>
   (closeUnneededPipes w (Child ind) pipes (length procs) ind st = Return () sta \<and>
    ind \<noteq> 0 \<and> sys_dup2 w (Child ind) (fst (pipes ! (ind - 1))) STDIN_FILENO sta = None \<longrightarrow>
      child w procs pipes ind st = Exit 127 (eprint ''IO Duplication Error'' sta)) \<and>
   (closeUnneededPipes w (Child ind) pipes (length procs) ind st = Return () sta \<and>
    (if ind \<noteq> 0 then sys_dup2 w (Child ind) (fst (pipes ! (ind - 1))) STDIN_FILENO sta
     else Some sta) = Some stb \<and>
    Suc ind \<noteq> length procs \<and>
    sys_dup2 w (Child ind) (snd (pipes ! ind)) STDOUT_FILENO stb = None \<longrightarrow>
      child w procs pipes ind st = Exit 127 (eprint ''IO Duplication Error'' stb)) \<and>
   (closeUnneededPipes w (Child ind) pipes (length procs) ind st = Exit c st' \<longrightarrow>
      child w procs pipes ind st = Exit c st') \<and>
   (procs \<noteq> [] \<and> [] \<notin> set procs \<and>
    makePipes w (length procs) st = Return pipes sta \<and>
    (\<forall>k < length procs. \<not> fork_fails w k) \<and>
    (\<forall>x. \<not> close_fails w Shell x) \<and> (\<forall>p. \<not> wait_fails w p) \<and>
    (\<forall>k < length procs. k \<in> set (finish_order w)) \<and>
    ind < length procs \<and> child w procs pipes ind sta = Exit 127 stc \<longrightarrow>
      (\<exists>stf s. wait_status w (length procs - 1)
                  (child w procs pipes (length procs - 1) sta) = Some s \<and>
                execute w procs st = Return () stf \<and>
                out stf = out st @ [Status (WEXITSTATUS s)] \<and> err stf = err st))"
proof -
  have p1: "i < n \<and> sys_pipe w st = None \<longrightarrow>
      makePipes_loop w n i pipes st = Exit EXIT_FAILURE (eprint ''Pipe Error'' st)"
    by (simp add: makePipes_loop.simps [of w n i pipes st])
  have p2: "i < n \<and> sys_fork w i = None \<longrightarrow>
      fork_loop w n i pids st = Exit EXIT_FAILURE (eprint ''Fork Error'' st)"
    by (simp add: fork_loop.simps [of w n i pids st])
  note wl = waitOnProcesses_loop.simps [of w ended pipes pids n i status st]
  have p3: "i < n \<and> sys_close w Shell (fst (pipes ! i)) st = None \<longrightarrow>
      waitOnProcesses_loop w ended pipes pids n i status st =
        Exit EXIT_FAILURE (eprint ''Error closing file descriptor'' st)"
    by (simp add: wl)
  have p4: "i < n \<and> sys_close w Shell (fst (pipes ! i)) st = Some sta \<and>
    sys_close w Shell (snd (pipes ! i)) sta = None \<longrightarrow>
      waitOnProcesses_loop w ended pipes pids n i status st =
        Exit EXIT_FAILURE (eprint ''Error closing file descriptor'' sta)"
    by (simp add: wl)
  have p5: "i < n \<and> sys_close w Shell (fst (pipes ! i)) st = Some sta \<and>
    sys_close w Shell (snd (pipes ! i)) sta = Some stb \<and>
    sys_waitpid w ended (pids ! i) = WaitError \<longrightarrow>
      waitOnProcesses_loop w ended pipes pids n i status st =
        Exit EXIT_FAILURE (eprint ''Error waiting for child process to run'' stb)"
    by (simp add: wl)
  have p6: "makePipes w (length procs) st = Exit c st' \<longrightarrow> execute w procs st = Exit c st'"
    by (simp add: execute_def)
  have p7: "makePipes w (length procs) st = Return pipes sta \<and>
    fork_loop w (length procs) 0 [] sta = Exit c st' \<longrightarrow> execute w procs st = Exit c st'"
    by (simp add: execute_def)
  have p8: "makePipes w (length procs) st = Return pipes sta \<and>
    fork_loop w (length procs) 0 [] sta = Return pids stb \<and>
    waitOnProcesses w (ended_children w procs pipes sta pids) pipes pids (length procs) stb
      = Exit c st' \<longrightarrow> execute w procs st = Exit c st'"
    by (simp add: execute_def)
  note cl = closeUnneededPipes_loop.simps [of w "Child ind" pipes n ind i st]
  have p9: "Suc i < n \<and> Suc i \<noteq> ind \<and> sys_close w (Child ind) (fst (pipes ! i)) st = None \<longrightarrow>
      closeUnneededPipes_loop w (Child ind) pipes n ind i st =
        Exit 127 (eprint (''Error closing file descriptor'' @ [NL]) st)"
    by (simp add: cl int_loop_bound int_prev_index)
  have p10: "Suc i < n \<and> i \<noteq> ind \<and>
    (if Suc i \<noteq> ind then sys_close w (Child ind) (fst (pipes ! i)) st else Some st) = Some sta \<and>
    sys_close w (Child ind) (snd (pipes ! i)) sta = None \<longrightarrow>
      closeUnneededPipes_loop w (Child ind) pipes n ind i st =
        Exit 127 (eprint (''Error closing file descriptor'' @ [NL]) sta)"
    by (simp add: cl int_loop_bound int_prev_index)
  have p11: "closeUnneededPipes w (Child ind) pipes (length procs) ind st = Return () sta \<and>
    ind \<noteq> 0 \<and> sys_dup2 w (Child ind) (fst (pipes ! (ind - 1))) STDIN_FILENO sta = None \<longrightarrow>
      child w procs pipes ind st = Exit 127 (eprint ''IO Duplication Error'' sta)"
    by (simp add: child_def runChild_def)
  have p12: "closeUnneededPipes w (Child ind) pipes (length procs) ind st = Return () sta \<and>
    (if ind \<noteq> 0 then sys_dup2 w (Child ind) (fst (pipes ! (ind - 1))) STDIN_FILENO sta
     else Some sta) = Some stb \<and>
    Suc ind \<noteq> length procs \<and>
    sys_dup2 w (Child ind) (snd (pipes ! ind)) STDOUT_FILENO stb = None \<longrightarrow>
      child w procs pipes ind st = Exit 127 (eprint ''IO Duplication Error'' stb)"
  proof (intro impI, elim conjE)
    assume cu: "closeUnneededPipes w (Child ind) pipes (length procs) ind st = Return () sta"
      and d1: "(if ind \<noteq> 0 then sys_dup2 w (Child ind) (fst (pipes ! (ind - 1))) STDIN_FILENO sta
                else Some sta) = Some stb"
      and nl: "Suc ind \<noteq> length procs"
      and d2: "sys_dup2 w (Child ind) (snd (pipes ! ind)) STDOUT_FILENO stb = None"
    from nl have "int ind \<noteq> int (length procs) - 1" by auto
    then have d2': "(if int ind \<noteq> int (length procs) - 1
                     then sys_dup2 w (Child ind) (snd (pipes ! ind)) STDOUT_FILENO stb
                     else Some stb) = None" using d2 by simp
    have "runChild w procs pipes ind st = Exit 127 (eprint ''IO Duplication Error'' stb)"
      unfolding runChild_def cu bind.simps d1 option.case d2' ..
    then show "child w procs pipes ind st = Exit 127 (eprint ''IO Duplication Error'' stb)"
      by (simp add: child_def)
  qed
  have p13: "closeUnneededPipes w (Child ind) pipes (length procs) ind st = Exit c st' \<longrightarrow>
      child w procs pipes ind st = Exit c st'"
    by (simp add: child_def runChild_def)
  have p14: "procs \<noteq> [] \<and> [] \<notin> set procs \<and>
    makePipes w (length procs) st = Return pipes sta \<and>
    (\<forall>k < length procs. \<not> fork_fails w k) \<and>
    (\<forall>x. \<not> close_fails w Shell x) \<and> (\<forall>p. \<not> wait_fails w p) \<and>
    (\<forall>k < length procs. k \<in> set (finish_order w)) \<and>
    ind < length procs \<and> child w procs pipes ind sta = Exit 127 stc \<longrightarrow>
      (\<exists>stf s. wait_status w (length procs - 1)
                  (child w procs pipes (length procs - 1) sta) = Some s \<and>
                execute w procs st = Return () stf \<and>
                out stf = out st @ [Status (WEXITSTATUS s)] \<and> err stf = err st)"
  proof (intro impI, elim conjE)
    assume ne: "procs \<noteq> []" and stages: "[] \<notin> set procs"
      and mk: "makePipes w (length procs) st = Return pipes sta"
      and nf: "\<forall>k < length procs. \<not> fork_fails w k"
      and noc: "\<forall>x. \<not> close_fails w Shell x" and now: "\<forall>p. \<not> wait_fails w p"
      and fin: "\<forall>k < length procs. k \<in> set (finish_order w)"
    from ne have "procs ! (length procs - 1) \<in> set procs" by simp
    with stages have "procs ! (length procs - 1) \<noteq> []" by metis
    from wait_status_child [OF this, of w pipes sta] obtain s where
      last: "wait_status w (length procs - 1)
               (child w procs pipes (length procs - 1) sta) = Some s" by blast
    from execute_returns [OF ne stages mk nf noc now fin last] obtain stf where
      "execute w procs st = Return () stf" "out stf = out st @ [Status (WEXITSTATUS s)]"
      "err stf = err st" by blast
    with last show "\<exists>stf s. wait_status w (length procs - 1)
                  (child w procs pipes (length procs - 1) sta) = Some s \<and>
                execute w procs st = Return () stf \<and>
                out stf = out st @ [Status (WEXITSTATUS s)] \<and> err stf = err st" by blast
  qed
  from p1 p2 p3 p4 p5 p6 p7 p8 p9 p10 p11 p12 p13 p14 show ?thesis by (intro conjI)
qed


lemmas shells = shell_1pipe_def shell_2pipes_def

theorem resource_failure_ends_the_process_witness:
  "makePipes_loop (quiet_world\<lparr>fd_limit := 4\<rparr>) 1 0 [] fresh_shell
     = Exit EXIT_FAILURE (eprint ''Pipe Error'' fresh_shell) \<and>
   fork_loop (quiet_world\<lparr>fork_fails := (\<lambda>i. True)\<rparr>) 1 0 [] shell_1pipe
     = Exit EXIT_FAILURE (eprint ''Fork Error'' shell_1pipe) \<and>
   waitOnProcesses_loop (quiet_world\<lparr>close_fails := (\<lambda>me d. me = Shell \<and> d = 3)\<rparr>)
       [] [(3, 4)] [101] 1 0 None shell_1pipe
     = Exit EXIT_FAILURE (eprint ''Error closing file descriptor'' shell_1pipe) \<and>
   waitOnProcesses_loop (quiet_world\<lparr>close_fails := (\<lambda>me d. me = Shell \<and> d = 4)\<rparr>)
       [] [(3, 4)] [101] 1 0 None shell_1pipe
     = Exit EXIT_FAILURE (eprint ''Error closing file descriptor''
         (shell_1pipe\<lparr>fds := (fds shell_1pipe)(3 := None)\<rparr>)) \<and>
   waitOnProcesses_loop (quiet_world\<lparr>wait_fails := (\<lambda>p. True)\<rparr>)
       [] [(3, 4)] [101] 1 0 None shell_1pipe
     = Exit EXIT_FAILURE (eprint ''Error waiting for child process to run''
         (shell_1pipe\<lparr>fds := (fds shell_1pipe)(3 := None, 4 := None)\<rparr>)) \<and>
   execute (quiet_world\<lparr>fd_limit := 4\<rparr>) [[''ls'']] fresh_shell
     = Exit EXIT_FAILURE (eprint ''Pipe Error'' fresh_shell) \<and>
   execute (quiet_world\<lparr>fork_fails := (\<lambda>i. True)\<rparr>) [[''ls'']] fresh_shell
     = Exit EXIT_FAILURE (eprint ''Fork Error'' shell_1pipe) \<and>
   execute (quiet_world\<lparr>wait_fails := (\<lambda>p. True)\<rparr>) [[''ls'']] fresh_shell
     = Exit EXIT_FAILURE (eprint ''Error waiting for child process to run''
         (shell_1pipe\<lparr>fds := (fds shell_1pipe)(3 := None, 4 := None)\<rparr>)) \<and>
   closeUnneededPipes_loop (quiet_world\<lparr>close_fails := (\<lambda>me d. me = Child 0 \<and> d = 3)\<rparr>)
       (Child 0) [(3, 4), (5, 6)] 2 0 0 shell_2pipes
     = Exit 127 (eprint (''Error closing file descriptor'' @ [NL]) shell_2pipes) \<and>
   closeUnneededPipes_loop (quiet_world\<lparr>close_fails := (\<lambda>me d. me = Child 1 \<and> d = 4)\<rparr>)
       (Child 1) [(3, 4), (5, 6)] 2 1 0 shell_2pipes
     = Exit 127 (eprint (''Error closing file descriptor'' @ [NL]) shell_2pipes) \<and>
   child (quiet_world\<lparr>dup2_fails := (\<lambda>me a b. me = Child 1)\<rparr>)
       [[''ls''], [''wc'']] [(3, 4), (5, 6)] 1 shell_2pipes
     = Exit 127 (eprint ''IO Duplication Error''
         (shell_2pipes\<lparr>fds := (fds shell_2pipes)(4 := None)\<rparr>)) \<and>
   child (quiet_world\<lparr>dup2_fails := (\<lambda>me a b. me = Child 0)\<rparr>)
       [[''ls''], [''wc'']] [(3, 4), (5, 6)] 0 shell_2pipes
     = Exit 127 (eprint ''IO Duplication Error''
         (shell_2pipes\<lparr>fds := (fds shell_2pipes)(3 := None)\<rparr>)) \<and>
   child (quiet_world\<lparr>close_fails := (\<lambda>me d. me = Child 0 \<and> d = 3)\<rparr>)
       [[''ls''], [''wc'']] [(3, 4), (5, 6)] 0 shell_2pipes
     = Exit 127 (eprint (''Error closing file descriptor'' @ [NL]) shell_2pipes) \<and>
   (\<exists>stf. execute (quiet_world\<lparr>dup2_fails := (\<lambda>me a b. me = Child 1)\<rparr>)
            [[''ls''], [''wc'']] fresh_shell = Return () stf \<and>
          out stf = [Status 127] \<and> err stf = [])"
proof -
  let ?procs1 = "[[''ls'']]" and ?procs2 = "[[''ls''], [''wc'']]"
  let ?p1 = "[(3, 4)] :: (fd \<times> fd) list" and ?p2 = "[(3, 4), (5, 6)] :: (fd \<times> fd) list"
  let ?s3 = "shell_1pipe\<lparr>fds := (fds shell_1pipe)(3 := None)\<rparr>"
  let ?s34 = "shell_1pipe\<lparr>fds := (fds shell_1pipe)(3 := None, 4 := None)\<rparr>"
  \<comment> \<open>pipe\<close>
  let ?wp = "quiet_world\<lparr>fd_limit := 4\<rparr>"
  have a1: "(0::nat) < 1 \<and> sys_pipe ?wp fresh_shell = None"
    by (simp add: exec_eval)
  note t1 = resource_failure_ends_the_process
    [where i = 0 and n = 1 and w = ?wp and st = fresh_shell and pipes = "[]"
       and procs = ?procs1 and c = EXIT_FAILURE and st' = "eprint ''Pipe Error'' fresh_shell"]
  have c1: "makePipes_loop ?wp 1 0 [] fresh_shell
                         = Exit EXIT_FAILURE (eprint ''Pipe Error'' fresh_shell)"
    by (rule t1 [THEN conjunct1, THEN mp, OF a1])
  then have a6: "makePipes ?wp (length ?procs1) fresh_shell
                   = Exit EXIT_FAILURE (eprint ''Pipe Error'' fresh_shell)"
    by (simp add: makePipes_def)
  have c6: "execute ?wp ?procs1 fresh_shell
                         = Exit EXIT_FAILURE (eprint ''Pipe Error'' fresh_shell)"
    by (rule t1 [THEN conjunct2, THEN conjunct2, THEN conjunct2, THEN conjunct2, THEN conjunct2, THEN conjunct1, THEN mp, OF a6])
  \<comment> \<open>fork\<close>
  let ?wf = "quiet_world\<lparr>fork_fails := (\<lambda>i. True)\<rparr>"
  have a2: "(0::nat) < 1 \<and> sys_fork ?wf 0 = None" by (simp add: sys_fork_def)
  note t2 = resource_failure_ends_the_process
    [where i = 0 and n = 1 and w = ?wf and st = fresh_shell and pids = "[]"
       and pipes = ?p1 and sta = shell_1pipe
       and procs = ?procs1 and c = EXIT_FAILURE and st' = "eprint ''Fork Error'' shell_1pipe"]
  note t2' = resource_failure_ends_the_process
    [where i = 0 and n = 1 and w = ?wf and st = shell_1pipe and pids = "[]"]
  have c2: "fork_loop ?wf 1 0 [] shell_1pipe
                          = Exit EXIT_FAILURE (eprint ''Fork Error'' shell_1pipe)"
    by (rule t2' [THEN conjunct2, THEN conjunct1, THEN mp, OF a2])
  have a7: "makePipes ?wf (length ?procs1) fresh_shell = Return ?p1 shell_1pipe"
    by (simp add: exec_eval shells)
  from c2 have a7': "fork_loop ?wf (length ?procs1) 0 [] shell_1pipe
                       = Exit EXIT_FAILURE (eprint ''Fork Error'' shell_1pipe)" by simp
  have c7: "execute ?wf ?procs1 fresh_shell
                         = Exit EXIT_FAILURE (eprint ''Fork Error'' shell_1pipe)"
    by (rule t2 [THEN conjunct2, THEN conjunct2, THEN conjunct2, THEN conjunct2, THEN conjunct2, THEN conjunct2, THEN conjunct1, THEN mp, OF conjI [OF a7 a7']])
  \<comment> \<open>close and waitpid in the shell\<close>
  let ?wc3 = "quiet_world\<lparr>close_fails := (\<lambda>me d. me = Shell \<and> d = 3)\<rparr>"
  have a3: "(0::nat) < 1 \<and> sys_close ?wc3 Shell (fst (?p1 ! 0)) shell_1pipe = None"
    by (simp add: sys_close_def)
  from resource_failure_ends_the_process
    [where i = 0 and n = 1 and w = ?wc3 and st = shell_1pipe and pipes = ?p1
       and ended = "[]" and pids = "[101]" and status = None] a3
  have c3: "waitOnProcesses_loop ?wc3 [] ?p1 [101] 1 0 None shell_1pipe
              = Exit EXIT_FAILURE (eprint ''Error closing file descriptor'' shell_1pipe)"
    by blast
  let ?wc4 = "quiet_world\<lparr>close_fails := (\<lambda>me d. me = Shell \<and> d = 4)\<rparr>"
  have a4: "(0::nat) < 1 \<and> sys_close ?wc4 Shell (fst (?p1 ! 0)) shell_1pipe = Some ?s3 \<and>
            sys_close ?wc4 Shell (snd (?p1 ! 0)) ?s3 = None"
    by (simp add: sys_close_def shells fresh_shell_def quiet_world_def)
  from resource_failure_ends_the_process
    [where i = 0 and n = 1 and w = ?wc4 and st = shell_1pipe and pipes = ?p1
       and ended = "[]" and pids = "[101]" and status = None and sta = ?s3] a4
  have c4: "waitOnProcesses_loop ?wc4 [] ?p1 [101] 1 0 None shell_1pipe
              = Exit EXIT_FAILURE (eprint ''Error closing file descriptor'' ?s3)"
    by blast
  let ?ww = "quiet_world\<lparr>wait_fails := (\<lambda>p. True)\<rparr>"
  have a5: "(0::nat) < 1 \<and> sys_close ?ww Shell (fst (?p1 ! 0)) shell_1pipe = Some ?s3 \<and>
            sys_close ?ww Shell (snd (?p1 ! 0)) ?s3 = Some ?s34 \<and>
            sys_waitpid ?ww [] ([101] ! 0) = WaitError"
    by (simp add: sys_close_def sys_waitpid_def shells fresh_shell_def quiet_world_def)
  note t5 = resource_failure_ends_the_process
    [where i = 0 and n = 1 and w = ?ww and st = shell_1pipe and pipes = ?p1
       and ended = "[]" and pids = "[101]" and status = None and sta = ?s3 and stb = ?s34]
  have c5: "waitOnProcesses_loop ?ww [] ?p1 [101] 1 0 None shell_1pipe
              = Exit EXIT_FAILURE (eprint ''Error waiting for child process to run'' ?s34)"
    by (rule t5 [THEN conjunct2, THEN conjunct2, THEN conjunct2, THEN conjunct2, THEN conjunct1, THEN mp, OF a5])
  have a8: "makePipes ?ww (length ?procs1) fresh_shell = Return ?p1 shell_1pipe \<and>
            fork_loop ?ww (length ?procs1) 0 [] shell_1pipe = Return [101] shell_1pipe \<and>
            waitOnProcesses ?ww (ended_children ?ww ?procs1 ?p1 shell_1pipe [101]) ?p1 [101]
                (length ?procs1) shell_1pipe
              = Exit EXIT_FAILURE (eprint ''Error waiting for child process to run'' ?s34)"
    by (simp add: exec_eval shells)
  from resource_failure_ends_the_process
    [where w = ?ww and st = fresh_shell and pipes = ?p1 and sta = shell_1pipe
       and procs = ?procs1 and pids = "[101]" and stb = shell_1pipe and c = EXIT_FAILURE
       and st' = "eprint ''Error waiting for child process to run'' ?s34"] a8
  have c8: "execute ?ww ?procs1 fresh_shell
              = Exit EXIT_FAILURE (eprint ''Error waiting for child process to run'' ?s34)"
    by blast
  \<comment> \<open>close in a child\<close>
  let ?wk0 = "quiet_world\<lparr>close_fails := (\<lambda>me d. me = Child 0 \<and> d = 3)\<rparr>"
  have a9: "Suc 0 < 2 \<and> Suc 0 \<noteq> 0 \<and> sys_close ?wk0 (Child 0) (fst (?p2 ! 0)) shell_2pipes = None"
    by (simp add: sys_close_def)
  have c9: "closeUnneededPipes_loop ?wk0 (Child 0) ?p2 2 0 0 shell_2pipes
              = Exit 127 (eprint (''Error closing file descriptor'' @ [NL]) shell_2pipes)"
    by (rule resource_failure_ends_the_process
    [where i = 0 and n = 2 and ind = 0 and w = ?wk0 and st = shell_2pipes and pipes = ?p2, THEN conjunct2, THEN conjunct2, THEN conjunct2, THEN conjunct2, THEN conjunct2, THEN conjunct2, THEN conjunct2, THEN conjunct2, THEN conjunct1, THEN mp, OF a9])
  let ?wk1 = "quiet_world\<lparr>close_fails := (\<lambda>me d. me = Child 1 \<and> d = 4)\<rparr>"
  have a10: "Suc 0 < 2 \<and> 0 \<noteq> (1::nat) \<and>
             (if Suc 0 \<noteq> 1 then sys_close ?wk1 (Child 1) (fst (?p2 ! 0)) shell_2pipes
              else Some shell_2pipes) = Some shell_2pipes \<and>
             sys_close ?wk1 (Child 1) (snd (?p2 ! 0)) shell_2pipes = None"
    by (simp add: sys_close_def)
  have c10: "closeUnneededPipes_loop ?wk1 (Child 1) ?p2 2 1 0 shell_2pipes
              = Exit 127 (eprint (''Error closing file descriptor'' @ [NL]) shell_2pipes)"
    by (rule resource_failure_ends_the_process
    [where i = 0 and n = 2 and ind = 1 and w = ?wk1 and st = shell_2pipes and pipes = ?p2
       and sta = shell_2pipes, THEN conjunct2, THEN conjunct2, THEN conjunct2, THEN conjunct2, THEN conjunct2, THEN conjunct2, THEN conjunct2, THEN conjunct2, THEN conjunct2, THEN conjunct1, THEN mp, OF a10])
  \<comment> \<open>dup2 in a child\<close>
  let ?wd1 = "quiet_world\<lparr>dup2_fails := (\<lambda>me a b. me = Child 1)\<rparr>"
  let ?k4 = "shell_2pipes\<lparr>fds := (fds shell_2pipes)(4 := None)\<rparr>"
  have a11: "closeUnneededPipes ?wd1 (Child 1) ?p2 (length ?procs2) 1 shell_2pipes = Return () ?k4 \<and>
             (1::nat) \<noteq> 0 \<and> sys_dup2 ?wd1 (Child 1) (fst (?p2 ! (1 - 1))) STDIN_FILENO ?k4 = None"
    by (simp add: exec_eval shells)
  have c11: "child ?wd1 ?procs2 ?p2 1 shell_2pipes = Exit 127 (eprint ''IO Duplication Error'' ?k4)"
    by (rule resource_failure_ends_the_process
    [where ind = 1 and w = ?wd1 and st = shell_2pipes and pipes = ?p2 and procs = ?procs2
       and sta = ?k4, THEN conjunct2, THEN conjunct2, THEN conjunct2, THEN conjunct2, THEN conjunct2, THEN conjunct2, THEN conjunct2, THEN conjunct2, THEN conjunct2, THEN conjunct2, THEN conjunct1, THEN mp, OF a11])
  let ?wd0 = "quiet_world\<lparr>dup2_fails := (\<lambda>me a b. me = Child 0)\<rparr>"
  let ?k3 = "shell_2pipes\<lparr>fds := (fds shell_2pipes)(3 := None)\<rparr>"
  have a12: "closeUnneededPipes ?wd0 (Child 0) ?p2 (length ?procs2) 0 shell_2pipes = Return () ?k3 \<and>
             (if (0::nat) \<noteq> 0 then sys_dup2 ?wd0 (Child 0) (fst (?p2 ! (0 - 1))) STDIN_FILENO ?k3
              else Some ?k3) = Some ?k3 \<and>
             Suc 0 \<noteq> length ?procs2 \<and>
             sys_dup2 ?wd0 (Child 0) (snd (?p2 ! 0)) STDOUT_FILENO ?k3 = None"
    by (simp add: exec_eval shells)
  have c12: "child ?wd0 ?procs2 ?p2 0 shell_2pipes = Exit 127 (eprint ''IO Duplication Error'' ?k3)"
    by (rule resource_failure_ends_the_process
    [where ind = 0 and w = ?wd0 and st = shell_2pipes and pipes = ?p2 and procs = ?procs2
       and sta = ?k3 and stb = ?k3, THEN conjunct2, THEN conjunct2, THEN conjunct2, THEN conjunct2, THEN conjunct2, THEN conjunct2, THEN conjunct2, THEN conjunct2, THEN conjunct2, THEN conjunct2, THEN conjunct2, THEN conjunct1, THEN mp, OF a12])
  \<comment> \<open>the end of closeUnneededPipes is the end of the child\<close>
  have a13: "closeUnneededPipes ?wk0 (Child 0) ?p2 (length ?procs2) 0 shell_2pipes
               = Exit 127 (eprint (''Error closing file descriptor'' @ [NL]) shell_2pipes)"
    using c9 by (simp add: closeUnneededPipes_def numeral_2_eq_2)
  have c13: "child ?wk0 ?procs2 ?p2 0 shell_2pipes
               = Exit 127 (eprint (''Error closing file descriptor'' @ [NL]) shell_2pipes)"
    by (rule resource_failure_ends_the_process
    [where ind = 0 and w = ?wk0 and st = shell_2pipes and pipes = ?p2 and procs = ?procs2
       and c = 127 and st' = "eprint (''Error closing file descriptor'' @ [NL]) shell_2pipes",
     THEN conjunct2, THEN conjunct2, THEN conjunct2, THEN conjunct2, THEN conjunct2, THEN conjunct2, THEN conjunct2, THEN conjunct2, THEN conjunct2, THEN conjunct2, THEN conjunct2, THEN conjunct2, THEN conjunct1, THEN mp, OF a13])
  \<comment> \<open>the shell, when dup2 fails in the child of stage 1\<close>
  have a14: "?procs2 \<noteq> [] \<and> [] \<notin> set ?procs2 \<and>
             makePipes ?wd1 (length ?procs2) fresh_shell = Return ?p2 shell_2pipes \<and>
             (\<forall>k < length ?procs2. \<not> fork_fails ?wd1 k) \<and>
             (\<forall>x. \<not> close_fails ?wd1 Shell x) \<and> (\<forall>p. \<not> wait_fails ?wd1 p) \<and>
             (\<forall>k < length ?procs2. k \<in> set (finish_order ?wd1)) \<and>
             1 < length ?procs2 \<and>
             child ?wd1 ?procs2 ?p2 1 shell_2pipes
               = Exit 127 (eprint ''IO Duplication Error'' ?k4)"
  proof (intro conjI)
    show "makePipes ?wd1 (length ?procs2) fresh_shell = Return ?p2 shell_2pipes"
      by (simp add: exec_eval shells)
    show "\<forall>k < length ?procs2. k \<in> set (finish_order ?wd1)"
      by (auto simp: quiet_world_def less_Suc_eq)
    show "child ?wd1 ?procs2 ?p2 1 shell_2pipes
            = Exit 127 (eprint ''IO Duplication Error'' ?k4)" by (rule c11)
  qed (simp_all add: quiet_world_def)
  have "\<exists>stf s. wait_status ?wd1 (length ?procs2 - 1)
                  (child ?wd1 ?procs2 ?p2 (length ?procs2 - 1) shell_2pipes) = Some s \<and>
                execute ?wd1 ?procs2 fresh_shell = Return () stf \<and>
                out stf = out fresh_shell @ [Status (WEXITSTATUS s)] \<and>
                err stf = err fresh_shell"
    by (rule resource_failure_ends_the_process
    [where ind = 1 and w = ?wd1 and st = fresh_shell and pipes = ?p2 and procs = ?procs2
       and sta = shell_2pipes and stc = "eprint ''IO Duplication Error'' ?k4",
     THEN conjunct2, THEN conjunct2, THEN conjunct2, THEN conjunct2, THEN conjunct2, THEN conjunct2, THEN conjunct2, THEN conjunct2, THEN conjunct2, THEN conjunct2, THEN conjunct2, THEN conjunct2, THEN conjunct2, THEN mp, OF a14])
  then obtain stf s where
    ws: "wait_status ?wd1 (length ?procs2 - 1)
           (child ?wd1 ?procs2 ?p2 (length ?procs2 - 1) shell_2pipes) = Some s"
    and ex: "execute ?wd1 ?procs2 fresh_shell = Return () stf"
    and o: "out stf = out fresh_shell @ [Status (WEXITSTATUS s)]"
    and e: "err stf = err fresh_shell" by blast
  have "length ?procs2 - 1 = 1" by simp
  with ws c11 have "s = W_EXITCODE 127" by (simp add: wait_status_def)
  with o e have "out stf = [Status 127]" "err stf = []"
    by (simp_all add: fresh_shell_def WEXITSTATUS_def W_EXITCODE_def)
  with ex have c14: "\<exists>stf. execute ?wd1 ?procs2 fresh_shell = Return () stf \<and>
          out stf = [Status 127] \<and> err stf = []" by blast
  from c1 c2 c3 c4 c5 c6 c7 c8 c9 c10 c11 c12 c13 c14 show ?thesis by (intro conjI)
qed


lemma last_pipe_not_closed:
  assumes d: "distinct (map fst pipes @ map snd pipes)" and len: "length pipes = n" and n: "0 < n"
  shows "fst (pipes ! (n - 1)) \<notin> closed_from pipes n i k"
    and "snd (pipes ! (n - 1)) \<notin> closed_from pipes n i k"
proof -
  have ll: "n - 1 < length pipes" using len n by simp
  have diff: "\<And>j. Suc j < n \<Longrightarrow>
                fst (pipes ! j) \<noteq> fst (pipes ! (n - 1)) \<and> snd (pipes ! j) \<noteq> fst (pipes ! (n - 1)) \<and>
                fst (pipes ! j) \<noteq> snd (pipes ! (n - 1)) \<and> snd (pipes ! j) \<noteq> snd (pipes ! (n - 1))"
  proof -
    fix j assume j: "Suc j < n"
    then have jl: "j < length pipes" and ne: "j \<noteq> n - 1" using len by simp_all
    from pipe_fds_distinct [OF d jl ll] pipe_fds_distinct [OF d ll jl] ne
    show "fst (pipes ! j) \<noteq> fst (pipes ! (n - 1)) \<and> snd (pipes ! j) \<noteq> fst (pipes ! (n - 1)) \<and>
          fst (pipes ! j) \<noteq> snd (pipes ! (n - 1)) \<and> snd (pipes ! j) \<noteq> snd (pipes ! (n - 1))"
      by auto
  qed
  show "fst (pipes ! (n - 1)) \<notin> closed_from pipes n i k"
  proof
    assume "fst (pipes ! (n - 1)) \<in> closed_from pipes n i k"
    then obtain j where "Suc j < n"
      and "fst (pipes ! (n - 1)) = fst (pipes ! j) \<or> fst (pipes ! (n - 1)) = snd (pipes ! j)"
      unfolding closed_from_def by auto
    with diff [of j] show False by auto
  qed
  show "snd (pipes ! (n - 1)) \<notin> closed_from pipes n i k"
  proof
    assume "snd (pipes ! (n - 1)) \<in> closed_from pipes n i k"
    then obtain j where "Suc j < n"
      and "snd (pipes ! (n - 1)) = fst (pipes ! j) \<or> snd (pipes ! (n - 1)) = snd (pipes ! j)"
      unfolding closed_from_def by auto
    with diff [of j] show False by auto
  qed
qed

text \<open>
  C5 fails on the code for every pipeline and every stage: the child of stage \<open>i\<close>
  reaches execvp with both ends of the last pipe, \<open>pipes[N - 1]\<close>, still open.
  closeUnneededPipes stops at \<open>size - 1\<close> and never closes \<open>pipes[size - 1]\<close>, which
  no stage needs.
\<close>

theorem last_pipe_stays_open_in_child:
  assumes mk: "makePipes w (length procs) st = Return pipes st1"
    and i: "i < length procs" and pr: "procs ! i = name # rest"
    and std0: "fds st STDIN_FILENO \<noteq> None" and std1: "fds st STDOUT_FILENO \<noteq> None"
    and noc: "\<forall>x. \<not> close_fails w (Child i) x"
    and nod: "\<forall>a b. \<not> dup2_fails w (Child i) a b"
    and ok: "\<not> exec_fails w i"
  shows "\<exists>st3. runChild w procs pipes i st1 = Exec (procs ! i) st3 \<and>
           fds st3 (fst (pipes ! (length procs - 1))) =
             Some (PipeEnd (pipes_made st + (length procs - 1)) ReadEnd) \<and>
           fds st3 (snd (pipes ! (length procs - 1))) =
             Some (PipeEnd (pipes_made st + (length procs - 1)) WriteEnd)"
proof -
  let ?n = "length procs" and ?k0 = "pipes_made st"
  let ?lr = "fst (pipes ! (?n - 1))" and ?lw = "snd (pipes ! (?n - 1))"
  note post = makePipes_post [OF mk]
  from post have len: "length pipes = ?n" and po: "pipes_open ?k0 pipes (fds st1)"
    by simp_all
  from po have d: "distinct (map fst pipes @ map snd pipes)" by (simp add: pipes_open_def)
  from i have n: "0 < ?n" and last: "?n - 1 < ?n" by auto
  have fresh: "fds st ?lr = None \<and> fds st ?lw = None"
    using makePipes_fresh [OF mk, of "?n - 1"] len last by simp
  with std0 std1 have ne: "?lr \<noteq> STDIN_FILENO" "?lr \<noteq> STDOUT_FILENO"
    "?lw \<noteq> STDIN_FILENO" "?lw \<noteq> STDOUT_FILENO" by auto
  have opn: "fds st1 ?lr = Some (PipeEnd (?k0 + (?n - 1)) ReadEnd)"
            "fds st1 ?lw = Some (PipeEnd (?k0 + (?n - 1)) WriteEnd)"
    using po len last by (simp_all add: pipes_open_def)
  note nc = last_pipe_not_closed [OF d len n, of i 0]
  define t3 where "t3 = table_at_exec pipes ?n i (fds st1)"
  define t1 where "t1 = (\<lambda>x. if x \<in> closed_from pipes ?n i 0 then None else fds st1 x)"
  have t1: "t1 ?lr = fds st1 ?lr" "t1 ?lw = fds st1 ?lw" using nc by (simp_all add: t1_def)
  have "t3 ?lr = fds st1 ?lr" using t1(1) ne(1,2)
    by (auto simp: t3_def table_at_exec_def Let_def t1_def [symmetric])
  moreover have "t3 ?lw = fds st1 ?lw" using t1(2) ne(3,4)
    by (auto simp: t3_def table_at_exec_def Let_def t1_def [symmetric])
  moreover from runChild_reaches_execvp [OF po len i pr noc nod] ok
  have "runChild w procs pipes i st1 = Exec (procs ! i) (st1\<lparr>fds := t3\<rparr>)"
    by (simp add: t3_def)
  ultimately show ?thesis using opn by simp
qed

text \<open>
  In \<open>ls | wc\<close> the child of the last stage reaches execvp holding both ends of pipe 1
  (descriptors 5 and 6) beside the read end of pipe 0.
\<close>

theorem last_pipe_stays_open_in_child_witness:
  "\<exists>st3. runChild quiet_world [[''ls''], [''wc'']] [(3, 4), (5, 6)] 1 shell_2pipes
            = Exec [''wc''] st3 \<and>
         fds st3 5 = Some (PipeEnd 1 ReadEnd) \<and> fds st3 6 = Some (PipeEnd 1 WriteEnd)"
proof -
  let ?procs = "[[''ls''], [''wc'']]"
  have h1: "makePipes quiet_world (length ?procs) fresh_shell = Return [(3, 4), (5, 6)] shell_2pipes"
    by (simp add: exec_eval shell_2pipes_def)
  have h2: "1 < length ?procs" by simp
  have h3: "?procs ! 1 = ''wc'' # []" by simp
  have h4: "fds fresh_shell STDIN_FILENO \<noteq> None" by (simp add: fresh_shell_def STDIN_FILENO_def)
  have h5: "fds fresh_shell STDOUT_FILENO \<noteq> None"
    by (simp add: fresh_shell_def STDOUT_FILENO_def)
  have h6: "\<forall>x. \<not> close_fails quiet_world (Child 1) x" by (simp add: quiet_world_def)
  have h7: "\<forall>a b. \<not> dup2_fails quiet_world (Child 1) a b" by (simp add: quiet_world_def)
  have h8: "\<not> exec_fails quiet_world 1" by (simp add: quiet_world_def)
  from last_pipe_stays_open_in_child [OF h1 h2 h3 h4 h5 h6 h7 h8]
  show ?thesis by (simp add: fresh_shell_def)
qed

lemma WEXITSTATUS_W_EXITCODE: "0 \<le> c \<Longrightarrow> c < 256 \<Longrightarrow> WEXITSTATUS (W_EXITCODE c) = c"
  by (simp add: WEXITSTATUS_def W_EXITCODE_def)


section \<open>Properties of the command loop\<close>

lemmas tok_eval = makeProcesses_def makeProcesses_loop.simps makeProcess_def
  makeProcess_loop.simps skipSpaces.simps makeArgument_def makeArgument_loop.simps
  endOfArg_def BUFFER_SIZE_def NL_def SP_def BAR_def EOF_byte_def NUL_def
  MAX_WORD_LENGTH_def MAX_WORDS_def MAX_PROCESSES_def nth_append

lemma fgets_long_line:
  assumes len: "BUFFER_SIZE - 1 \<le> length line" and nl: "NL \<notin> set line"
  shows "fgets buf (line @ NL # tail) =
           Some (take (BUFFER_SIZE - 1) line @ [NUL] @ drop BUFFER_SIZE buf,
                 drop (BUFFER_SIZE - 1) line @ NL # tail)"
proof -
  let ?k = "BUFFER_SIZE - 1"
  have tk: "take ?k (line @ NL # tail) = take ?k line" using len by simp
  have "\<forall>c \<in> set (take ?k line). c \<noteq> NL" using nl by (auto dest: in_set_takeD)
  then have tw: "takeWhile (\<lambda>c. c \<noteq> NL) (take ?k line) = take ?k line"
    by (simp add: takeWhile_eq_all_conv)
  have l: "length (take ?k line) = ?k" using len by simp
  have pos: "0 < BUFFER_SIZE" by (simp add: BUFFER_SIZE_def)
  show ?thesis
    unfolding fgets_def Let_def tk tw l using len pos by simp
qed

lemma main_loop_runs_pipeline:
  assumes "fgets buf pending = Some (input, rest)"
    and "makeProcesses input = Inr ((name # args) # stages)"
    and "c_str name \<noteq> ''exit''"
    and "execute w ((name # args) # stages) (print Prompt st) = Return () st2"
  shows "main_loop w buf pending e st = main_loop w input rest e st2"
  using assms by (simp add: main_loop.simps [of w buf pending e st])

lemma main_loop_end_of_input:
  "main_loop w buf [] False st = Exit 1 (print Prompt st)"
  by (simp add: main_loop.simps [of w buf "[]" False st] fgets_def)

lemma chunk1: "take (BUFFER_SIZE - 1) long_line @ [NUL] @ drop BUFFER_SIZE (buffer_of [])
                 = ''ls||'' @ replicate 2043 (CHR ''x'') @ [NUL]"
  by (simp add: long_line_def BUFFER_SIZE_def buffer_of_def)

lemma rest1: "drop (BUFFER_SIZE - 1) long_line @ [NL] = ''wc'' @ [NL]"
  by (simp add: long_line_def BUFFER_SIZE_def)

lemma long_line_len: "BUFFER_SIZE - 1 \<le> length long_line"
  by (simp add: long_line_def BUFFER_SIZE_def)

lemma long_line_nl: "NL \<notin> set long_line"
  by (auto simp: long_line_def NL_def)

lemma tok_chunk1: "makeProcesses (''ls||'' @ replicate 2043 (CHR ''x'') @ [NUL]) = Inr [[''ls'']]"
  by (simp add: tok_eval)

lemma fgets_chunk2:
  "fgets (''ls||'' @ replicate 2043 (CHR ''x'') @ [NUL]) (''wc'' @ [NL])
     = Some (''wc'' @ [NL, NUL] @ replicate 2043 (CHR ''x'') @ [NUL], [])"
  by (simp add: fgets_def BUFFER_SIZE_def NL_def Let_def)

lemma tok_chunk2:
  "makeProcesses (''wc'' @ [NL, NUL] @ replicate 2043 (CHR ''x'') @ [NUL]) = Inr [[''wc'']]"
  by (simp add: tok_eval)

lemma run_ls:
  "execute quiet_world [[''ls'']] (print Prompt fresh_shell) =
     Return () (fresh_shell\<lparr>fds := (fds fresh_shell)(3 := None, 4 := None),
                            pipes_made := 1, out := [Prompt, Status 5]\<rparr>)"
  by (simp add: exec_eval)

lemma run_wc:
  "execute quiet_world [[''wc'']]
     (print Prompt (fresh_shell\<lparr>fds := (fds fresh_shell)(3 := None, 4 := None),
                                pipes_made := 1, out := [Prompt, Status 5]\<rparr>)) =
     Return () (fresh_shell\<lparr>fds := (fds fresh_shell)(3 := None, 4 := None), pipes_made := 2,
                            out := [Prompt, Status 5, Prompt, Status 5]\<rparr>)"
  by (simp add: exec_eval)

lemma not_exit: "c_str ''ls'' \<noteq> ''exit''" "c_str ''wc'' \<noteq> ''exit''"
  by (simp_all add: c_str_def NUL_def)

text \<open>
  C2 at the empty input: standard input is at its end at the first prompt, with no
  read error and no \<open>exit\<close> command, and main returns 1 (\<open>return 1\<close> stands after the
  \<open>if (ferror(stdin))\<close> block, not inside it).
\<close>

theorem end_of_input_exit_status:
  "main w buf [] False st = Exit 1 (print Prompt st)"
  by (simp add: main_def main_loop_end_of_input)

text \<open>
  C8, as the spec states it, fails: a line of 2049 bytes, longer than the buffer, is
  not rejected. Its first 2047 bytes are run as the pipeline \<open>ls\<close>, its last two bytes
  as the pipeline \<open>wc\<close>, both statuses are reported and nothing is written to standard
  error.
\<close>

theorem long_line_is_executed:
  "\<exists>st'. main quiet_world (buffer_of []) (long_line @ [NL]) False fresh_shell = Exit 1 st' \<and>
         out st' = [Prompt, Status 5, Prompt, Status 5, Prompt] \<and> err st' = []"
proof -
  let ?b1 = "''ls||'' @ replicate 2043 (CHR ''x'') @ [NUL]"
  let ?b2 = "''wc'' @ [NL, NUL] @ replicate 2043 (CHR ''x'') @ [NUL]"
  let ?s2 = "fresh_shell\<lparr>fds := (fds fresh_shell)(3 := None, 4 := None),
                          pipes_made := 1, out := [Prompt, Status 5]\<rparr>"
  let ?s3 = "fresh_shell\<lparr>fds := (fds fresh_shell)(3 := None, 4 := None), pipes_made := 2,
                          out := [Prompt, Status 5, Prompt, Status 5]\<rparr>"
  have f1: "fgets (buffer_of []) (long_line @ [NL]) = Some (?b1, ''wc'' @ [NL])"
    using fgets_long_line [OF long_line_len long_line_nl, of "buffer_of []" "[]"] chunk1 rest1
    by simp
  have "main quiet_world (buffer_of []) (long_line @ [NL]) False fresh_shell
          = main_loop quiet_world ?b1 (''wc'' @ [NL]) False ?s2"
    unfolding main_def
    by (rule main_loop_runs_pipeline [OF f1 tok_chunk1 not_exit(1) run_ls])
  also have "\<dots> = main_loop quiet_world ?b2 [] False ?s3"
    by (rule main_loop_runs_pipeline [OF fgets_chunk2 tok_chunk2 not_exit(2) run_wc])
  also have "\<dots> = Exit 1 (print Prompt ?s3)" by (rule main_loop_end_of_input)
  finally show ?thesis by (simp add: print_def fresh_shell_def)
qed

text \<open>
  C8, amended. A line of more than \<open>BUFFER_SIZE - 1\<close> bytes (newline included) is
  neither rejected nor discarded: fgets hands its first \<open>BUFFER_SIZE - 1\<close> bytes to the
  tokenizer as a line of their own and leaves the rest of the line as the next
  input. When those bytes tokenize to a pipeline that is not the \<open>exit\<close> command and
  that execute runs through, the pipeline is executed and the prompt loop goes on
  with the rest of the line.
\<close>

theorem long_line_is_read_in_chunks:
  assumes len: "BUFFER_SIZE - 1 \<le> length line" and nl: "NL \<notin> set line"
    and tk: "makeProcesses (take (BUFFER_SIZE - 1) line @ [NUL] @ drop BUFFER_SIZE buf)
               = Inr ((name # args) # stages)"
    and nx: "c_str name \<noteq> ''exit''"
    and ex: "execute w ((name # args) # stages) (print Prompt st) = Return () st2"
  shows "fgets buf (line @ NL # tail) =
           Some (take (BUFFER_SIZE - 1) line @ [NUL] @ drop BUFFER_SIZE buf,
                 drop (BUFFER_SIZE - 1) line @ NL # tail) \<and>
         main_loop w buf (line @ NL # tail) e st =
           main_loop w (take (BUFFER_SIZE - 1) line @ [NUL] @ drop BUFFER_SIZE buf)
             (drop (BUFFER_SIZE - 1) line @ NL # tail) e st2"
  using fgets_long_line [OF len nl, of buf tail]
    main_loop_runs_pipeline [OF fgets_long_line [OF len nl, of buf tail] tk nx ex, of e]
  by simp

theorem long_line_is_read_in_chunks_witness:
  "fgets (buffer_of []) (long_line @ NL # []) =
     Some (take (BUFFER_SIZE - 1) long_line @ [NUL] @ drop BUFFER_SIZE (buffer_of []),
           drop (BUFFER_SIZE - 1) long_line @ NL # []) \<and>
   main_loop quiet_world (buffer_of []) (long_line @ NL # []) False fresh_shell =
     main_loop quiet_world
       (take (BUFFER_SIZE - 1) long_line @ [NUL] @ drop BUFFER_SIZE (buffer_of []))
       (drop (BUFFER_SIZE - 1) long_line @ NL # []) False
       (fresh_shell\<lparr>fds := (fds fresh_shell)(3 := None, 4 := None),
                     pipes_made := 1, out := [Prompt, Status 5]\<rparr>)"
proof -
  have h3: "makeProcesses (take (BUFFER_SIZE - 1) long_line @ [NUL] @
                             drop BUFFER_SIZE (buffer_of []))
              = Inr ((''ls'' # []) # [])"
    unfolding chunk1 by (rule tok_chunk1)
  show ?thesis
    by (rule long_line_is_read_in_chunks
               [OF long_line_len long_line_nl h3 not_exit(1) run_ls])
qed


section \<open>Properties of the shell on a regular file\<close>

text \<open>Fuel that suffices keeps sufficing.\<close>

lemma main_loop_file_more_fuel:
  "main_loop_file n w buf f st = Some r \<Longrightarrow> main_loop_file (n + m) w buf f st = Some r"
proof (induction n arbitrary: buf f st)
  case 0
  then show ?case by simp
next
  case (Suc n)
  from Suc.prems show ?case
    by (auto simp: Suc.IH split: prod.splits option.splits sum.splits list.splits
          result.splits if_splits)
qed

text \<open>
  When the file has no more to give, fgets on the file hands out what \<open>fgets\<close> hands
  out from the unread bytes.
\<close>

lemma fgets_loop_buffered:
  assumes "eof_seen f \<or> length (content f) \<le> offset f"
  shows "fst (fgets_loop k acc f) = acc @ chunk_of k (unread f)"
  using assms
proof (induction k acc f rule: fgets_loop.induct)
  case (1 k acc f)
  show ?case
  proof (cases "k = 0")
    case True
    then show ?thesis by (simp add: fgets_loop.simps [of 0 acc f] chunk_of_def)
  next
    case k: False
    show ?thesis
    proof (cases "unread f")
      case Nil
      with "1.prems" have "unread (underflow f) = []"
        by (auto simp: underflow_def Let_def)
      with Nil k show ?thesis
        by (simp add: fgets_loop.simps [of k acc f] chunk_of_def Let_def)
    next
      case (Cons c cs)
      show ?thesis
      proof (cases "c = NL")
        case True
        have "fgets_loop k acc f = (acc @ [c], f\<lparr>unread := cs\<rparr>)"
          using Cons k True by (subst fgets_loop.simps) simp
        moreover have "chunk_of k (unread f) = [c]"
          using Cons k True by (cases k) (simp_all add: chunk_of_def)
        ultimately show ?thesis by simp
      next
        case False
        from "1.prems" have p: "eof_seen (f\<lparr>unread := cs\<rparr>) \<or>
            length (content (f\<lparr>unread := cs\<rparr>)) \<le> offset (f\<lparr>unread := cs\<rparr>)" by simp
        from "1.IH"(2) [OF k Cons False p]
        have "fst (fgets_loop (k - 1) (acc @ [c]) (f\<lparr>unread := cs\<rparr>)) =
                (acc @ [c]) @ chunk_of (k - 1) cs" by simp
        moreover have "fgets_loop k acc f = fgets_loop (k - 1) (acc @ [c]) (f\<lparr>unread := cs\<rparr>)"
          using Cons k False by (subst fgets_loop.simps) simp
        moreover have "chunk_of k (unread f) = c # chunk_of (k - 1) cs"
          using Cons k False by (cases k) (auto simp: chunk_of_def Let_def)
        ultimately show ?thesis by simp
      qed
    qed
  qed
qed

lemma fgets_file_is_fgets:
  assumes "eof_seen f \<or> length (content f) \<le> offset f"
  shows "fst (fgets_file buf f) = map_option fst (fgets buf (unread f))"
proof -
  have "chunk_of (BUFFER_SIZE - 1) [] = []" by (simp add: chunk_of_def)
  moreover have "unread f \<noteq> [] \<Longrightarrow> chunk_of (BUFFER_SIZE - 1) (unread f) \<noteq> []"
    by (cases "unread f") (auto simp: chunk_of_def Let_def BUFFER_SIZE_def)
  ultimately show ?thesis
    using fgets_loop_buffered [OF assms, of "BUFFER_SIZE - 1" "[]"]
    by (auto simp: fgets_file_def fgets_def chunk_of_def Let_def BUFFER_SIZE_def
          split: prod.splits)
qed

text \<open>
  The exit of a child whose execvp failed moves the offset of the file back by the
  number of bytes that the shell has read ahead, for every pipeline of one stage.
\<close>

lemma exec_failure_moves_offset:
  assumes mk: "makePipes w 1 st = Return pipes st1"
    and fails: "exec_fails w 0"
    and noc: "\<forall>x. \<not> close_fails w (Child 0) x"
    and nod: "\<forall>a b. \<not> dup2_fails w (Child 0) a b"
    and fl: "fds st STDIN_FILENO = Some RegularFile"
    and le: "length (unread f) \<le> offset f"
  shows "stdin_after_execute w [name # rest] st f = f\<lparr>offset := offset f - length (unread f)\<rparr>"
proof -
  let ?procs = "[name # rest]"
  have mk': "makePipes w (length ?procs) st = Return pipes st1" using mk by simp
  have ch: "child w ?procs pipes 0 st1 =
              Exit 127 (eprint (''jsh error: Command not found: '' @ c_str name @ [NL])
                          (st1\<lparr>fds := table_at_exec pipes (length ?procs) 0 (fds st1)\<rparr>))"
    by (rule exec_failure_ends_child [OF mk' _ _ fails noc nod]) simp_all
  from makePipes_post [OF mk'] fl have "fds st1 STDIN_FILENO = Some RegularFile" by simp
  then have "table_at_exec pipes (length ?procs) 0 (fds st1) STDIN_FILENO = Some RegularFile"
    by (simp add: table_at_exec_def closed_from_end)
  with ch le mk' show ?thesis
    by (simp add: stdin_after_execute_def children_exits_def exit_cleanup_def eprint_def)
qed

text \<open>
  C6 at a standard input that is a regular file holding the two lines \<open>nosuchprog1\<close>
  and \<open>nosuchprog2\<close>, neither of which names a program that execvp finds. The first
  read of the shell takes both lines into the buffer of stdio, which moves the offset
  of the file to 24, and fgets hands out the first line. The child of that line does
  what the claim says: it writes the diagnostic to standard error and ends with
  \<open>exit(127)\<close>. But \<open>exit\<close> runs the cleanup of stdio in the child, which gives the 12
  unread bytes of the second line back to the file: the offset that the shell shares
  is 12 when execute returns. The shell runs the second line from its buffer, then
  reads it from the file and runs it a second time: it reports three statuses for
  two lines. Read once, the same two lines give two statuses.
\<close>

theorem exec_failure_moves_shared_offset:
  "fgets_file (buffer_of []) (file_at_start two_lines) =
     (Some (buffer_of (''nosuchprog1'' @ [NL])), after_first_line) \<and>
   (\<exists>st'. child nothing_found [[''nosuchprog1'']] [(3, 4)] 0
            (shell_on_file\<lparr>fds := (fds shell_on_file)
                 (3 \<mapsto> PipeEnd 0 ReadEnd, 4 \<mapsto> PipeEnd 0 WriteEnd),
               pipes_made := 1, out := [Prompt]\<rparr>) = Exit 127 st' \<and>
          err st' = [''jsh error: Command not found: nosuchprog1'' @ [NL]] \<and>
          fds st' STDIN_FILENO = Some RegularFile) \<and>
   stdin_after_execute nothing_found [[''nosuchprog1'']] (print Prompt shell_on_file)
       after_first_line = after_first_line\<lparr>offset := 12\<rparr> \<and>
   (\<exists>st'. main_loop_file 4 nothing_found (buffer_of []) (file_at_start two_lines)
            shell_on_file = Some (Exit 1 st') \<and>
          out st' = [Prompt, Status 127, Prompt, Status 127, Prompt, Status 127, Prompt]) \<and>
   (\<exists>st'. main nothing_found (buffer_of []) two_lines False shell_on_file = Exit 1 st' \<and>
          out st' = [Prompt, Status 127, Prompt, Status 127, Prompt])"
proof -
  have a: "fgets_file (buffer_of []) (file_at_start two_lines) =
             (Some (buffer_of (''nosuchprog1'' @ [NL])), after_first_line)"
    by code_simp
  have b: "\<exists>st'. child nothing_found [[''nosuchprog1'']] [(3, 4)] 0
            (shell_on_file\<lparr>fds := (fds shell_on_file)
                 (3 \<mapsto> PipeEnd 0 ReadEnd, 4 \<mapsto> PipeEnd 0 WriteEnd),
               pipes_made := 1, out := [Prompt]\<rparr>) = Exit 127 st' \<and>
          err st' = [''jsh error: Command not found: nosuchprog1'' @ [NL]] \<and>
          fds st' STDIN_FILENO = Some RegularFile"
    by (simp add: exec_eval nothing_found_def shell_on_file_def)
  have c: "stdin_after_execute nothing_found [[''nosuchprog1'']] (print Prompt shell_on_file)
             after_first_line = after_first_line\<lparr>offset := 12\<rparr>"
    by (simp add: stdin_after_execute_def children_exits_def exit_cleanup_def exec_eval
          nothing_found_def shell_on_file_def after_first_line_def)
  have "case main_loop_file 4 nothing_found (buffer_of []) (file_at_start two_lines)
               shell_on_file of
          Some (Exit c st') \<Rightarrow>
            c = 1 \<and>
            out st' = [Prompt, Status 127, Prompt, Status 127, Prompt, Status 127, Prompt]
        | _ \<Rightarrow> False"
    by code_simp
  then have d: "\<exists>st'. main_loop_file 4 nothing_found (buffer_of []) (file_at_start two_lines)
            shell_on_file = Some (Exit 1 st') \<and>
          out st' = [Prompt, Status 127, Prompt, Status 127, Prompt, Status 127, Prompt]"
    by (auto split: option.splits result.splits)
  have "case main nothing_found (buffer_of []) two_lines False shell_on_file of
          Exit c st' \<Rightarrow> c = 1 \<and> out st' = [Prompt, Status 127, Prompt, Status 127, Prompt]
        | _ \<Rightarrow> False"
    by code_simp
  then have e: "\<exists>st'. main nothing_found (buffer_of []) two_lines False shell_on_file
                   = Exit 1 st' \<and>
          out st' = [Prompt, Status 127, Prompt, Status 127, Prompt]"
    by (auto split: result.splits)
  from a b c d e show ?thesis by (intro conjI)
qed

end
